theory Spec2Isabelle
  imports Complex_Main "HOL-Library.AList" "HOL-Library.Char_ord" "HOL-Library.List_Lexorder"
begin

section \<open>Strings of the Python runtime\<close>

text \<open>
  File names, display names, employee ids and one-time codes are Python \<open>str\<close> values.
  They are modelled as HOL strings, a character being a code point from U+0000 to U+00FF;
  text with a code point beyond U+00FF is outside the model. The whitespace test and the
  case mappings below are those of the Unicode database on these code points.
\<close>

definition between :: "nat \<Rightarrow> char \<Rightarrow> nat \<Rightarrow> bool" where
  "between lo c hi = (lo \<le> of_char c \<and> (of_char c :: nat) \<le> hi)"

text \<open>The capital letters: A to Z, and U+00C0 to U+00DE without the multiplication sign.\<close>

definition is_upper :: "char \<Rightarrow> bool" where
  "is_upper c = (between 65 c 90 \<or> between 192 c 214 \<or> between 216 c 222)"

text \<open>
  The small letters with a capital 32 code points below: a to z, and U+00E0 to U+00FE
  without the division sign.
\<close>

definition has_capital :: "char \<Rightarrow> bool" where
  "has_capital c = (between 97 c 122 \<or> between 224 c 246 \<or> between 248 c 254)"

text \<open>
  The cased characters: the letters above, the two ordinal indicators, the micro sign, the
  sharp s and the y with diaeresis.
\<close>

definition is_cased :: "char \<Rightarrow> bool" where
  "is_cased c = (is_upper c \<or> has_capital c \<or> (of_char c :: nat) \<in> {170, 181, 186, 223, 255})"

definition lower_char :: "char \<Rightarrow> char" where
  "lower_char c = (if is_upper c then char_of ((of_char c :: nat) + 32) else c)"

text \<open>The sharp s becomes two letters in upper case and in title case.\<close>

definition upper_char :: "char \<Rightarrow> string" where
  "upper_char c =
     (if has_capital c then [char_of ((of_char c :: nat) - 32)]
      else if (of_char c :: nat) = 223 then ''SS'' else [c])"

definition title_char :: "char \<Rightarrow> string" where
  "title_char c =
     (if has_capital c then [char_of ((of_char c :: nat) - 32)]
      else if (of_char c :: nat) = 223 then ''Ss'' else [c])"

text \<open>\<open>str.lower()\<close> and \<open>str.upper()\<close>.\<close>

definition lower :: "string \<Rightarrow> string" where
  "lower s = map lower_char s"

definition upper :: "string \<Rightarrow> string" where
  "upper s = concat (map upper_char s)"

text \<open>
  The capitals of the micro sign (U+00B5) and of the y with diaeresis (U+00FF) are U+039C
  and U+0178, beyond the characters of the model: \<open>upper\<close> and \<open>title\<close> leave the two as
  they are, and are \<open>str.upper()\<close> and \<open>str.title()\<close> on the strings without them.
\<close>

definition capitals_within :: "string \<Rightarrow> bool" where
  "capitals_within s = list_all (\<lambda>c. (of_char c :: nat) \<noteq> 181 \<and> (of_char c :: nat) \<noteq> 255) s"

text \<open>
  \<open>str.title()\<close>: a character that follows a cased character in lower case, any other in
  title case.
\<close>

fun title_from :: "bool \<Rightarrow> string \<Rightarrow> string" where
  "title_from prev [] = []"
| "title_from prev (c # cs) =
     (if prev then [lower_char c] else title_char c) @ title_from (is_cased c) cs"

definition title :: "string \<Rightarrow> string" where
  "title s = title_from False s"

text \<open>\<open>str.strip()\<close>: leading and trailing whitespace removed.\<close>

definition is_space :: "char \<Rightarrow> bool" where
  "is_space c = ((of_char c :: nat) \<in> {9, 10, 11, 12, 13, 28, 29, 30, 31, 32, 133, 160})"

definition strip :: "string \<Rightarrow> string" where
  "strip s = rev (dropWhile is_space (rev (dropWhile is_space s)))"

text \<open>\<open>str.endswith(suffix)\<close>.\<close>

definition endswith :: "string \<Rightarrow> string \<Rightarrow> bool" where
  "endswith s suffix = (length suffix \<le> length s \<and> drop (length s - length suffix) s = suffix)"

text \<open>\<open>str(n)\<close> for an integer: decimal digits, with a minus sign for a negative number.\<close>

definition digit_char :: "nat \<Rightarrow> char" where
  "digit_char d = char_of (48 + d)"

fun decimal :: "nat \<Rightarrow> string" where
  "decimal n = (if n < 10 then [digit_char n] else decimal (n div 10) @ [digit_char (n mod 10)])"

declare decimal.simps [simp del]

definition py_str :: "int \<Rightarrow> string" where
  "py_str i = (if i < 0 then CHR ''-'' # decimal (nat (- i)) else decimal (nat i))"

definition is_digit :: "char \<Rightarrow> bool" where
  "is_digit c = (48 \<le> (of_char c :: nat) \<and> (of_char c :: nat) \<le> 57)"

section \<open>The application state and what it emits\<close>

text \<open>
  Log lines, status messages, popups, thread starts, the outbound form post and the mail
  are recorded, in program order, in a trace; so is the store to the cooldown table, to
  tell where it stands among them. Each constructor stands for one call site of the
  source; the formatted text, colour and display time of a message are not kept, its
  arguments are. The frame queue between the camera thread and the display is left out.
\<close>

datatype level = INFO | WARN | ERROR

datatype log_line =
    Submitting string string
  | Payload_line
  | Submitted_ok
  | Submission_status int
  | Submission_timeout_line string string
  | Submission_connection_line string string
  | Submission_unexpected_line string string
  | Recognised_line string string
  | No_existing_face_line
  | Starting_capture string int bool
  | Captured_line nat int string
  | Capture_complete
  | Update_finished
  | Trained_line nat nat
  | No_images_line
  | Skipping_file string
  | Incorrect_otp
  | Resent_otp

datatype status =
    Attendance_recorded string
  | Attendance_already_recorded string
  | Attendance_submitted string
  | Capturing_in nat
  | Capturing_now
  | Captured_photos nat int
  | No_face_detected
  | Face_updated
  | Registration_completed

datatype popup =
    Submission_warning int
  | Submission_timed_out
  | Submission_network_error
  | No_existing_face
  | Sending_otp

datatype task =
    Attendance_submitter string string
  | Google_form_submitter string string
  | Capture_samples_update "string option" string bool int
  | Send_otp_thread string string

datatype effect =
    Log level log_line
  | Status status
  | Popup popup
  | Start_thread task
  | Store_last_seen string real
  | Play_sound
  | Form_post string string string string
  | Send_mail string string
  | Clear_otp_input
  | Dismiss_popup
  | Draw_recognised string string
  | Draw_unknown
  | Flash
  | Broken_callback

text \<open>The exceptions of the model: one of OpenCV, and one that no handler catches.\<close>

datatype exn = Cv2_error | Escaped_exception

text \<open>
  The recogniser of OpenCV is opaque. A recogniser that was never trained raises on
  \<open>predict\<close>; a trained one is kept as the samples and labels it was trained on, and what it
  predicts from them is a parameter of the model.
\<close>

datatype 'img recogniser = Untrained | Trained "('img \<times> int) list"

record 'img app =
  known_faces_dir :: "(string \<times> 'img option) list"
  recognizer :: "'img recogniser"
  label_map :: "(int \<times> string \<times> string) list"
  last_seen_time :: "string \<rightharpoonup> real"
  otp_storage :: "string \<rightharpoonup> string"
  pending_names :: "string \<rightharpoonup> string option"
  trace :: "effect list"

definition emit :: "effect list \<Rightarrow> 'img app \<Rightarrow> 'img app" where
  "emit es s = s\<lparr>trace := trace s @ es\<rparr>"

text \<open>What a step added to the trace.\<close>

definition emitted :: "'img app \<Rightarrow> 'img app \<Rightarrow> effect list" where
  "emitted s s' = drop (length (trace s)) (trace s')"

section \<open>Attendance submission\<close>

text \<open>
  What \<open>session.post\<close> does is an input of the model: a response with its status code and
  body, or one of the exceptions the source distinguishes. \<open>Other_exception\<close> is an
  exception outside the \<open>requests\<close> hierarchy, which no handler of the source catches.
\<close>

datatype http_outcome =
    Response int string
  | Timeout
  | Connection_error
  | Request_exception
  | Other_exception

text \<open>
  \<open>_submit_to_google_form\<close>. The date and the time of the payload are read from the clock
  and passed in. The result is the exception that leaves the function, if any, and the
  state. The popup of the last handler is built in a callback that reads \<open>exc\<close>, a name
  Python unbinds when the handler ends: when the clock runs the callback it raises
  \<open>NameError\<close> and no popup opens (\<open>Broken_callback\<close>).
\<close>

definition submit_to_google_form ::
  "string \<times> string \<Rightarrow> http_outcome \<Rightarrow> string \<Rightarrow> string \<Rightarrow> 'img app \<Rightarrow> exn option \<times> 'img app" where
  "submit_to_google_form stamp outcome name emp_id s =
     (let s1 = emit [Log INFO (Submitting name emp_id), Log INFO Payload_line,
                     Form_post (title name) emp_id (fst stamp) (snd stamp)] s
      in case outcome of
           Response status_code text \<Rightarrow>
             if status_code = 200 \<or> status_code = 302
             then (None, emit [Log INFO Submitted_ok, Status (Attendance_submitted (title name))] s1)
             else (None, emit [Log WARN (Submission_status status_code),
                               Popup (Submission_warning status_code)] s1)
         | Timeout \<Rightarrow>
             (None, emit [Log ERROR (Submission_timeout_line name emp_id),
                          Popup Submission_timed_out] s1)
         | Connection_error \<Rightarrow>
             (None, emit [Log ERROR (Submission_connection_line name emp_id),
                          Popup Submission_network_error] s1)
         | Request_exception \<Rightarrow>
             (None, emit [Log ERROR (Submission_unexpected_line name emp_id),
                          Broken_callback] s1)
         | Other_exception \<Rightarrow> (Some Escaped_exception, s1))"

text \<open>
  \<open>_handle_successful_recognition\<close>, the target of the thread the camera loop starts: it
  plays the sound when there is one and starts the submitting thread.
\<close>

definition handle_successful_recognition :: "bool \<Rightarrow> string \<Rightarrow> string \<Rightarrow> 'img app \<Rightarrow> 'img app" where
  "handle_successful_recognition has_sound name emp_id s =
     emit ([Log INFO (Recognised_line name emp_id)]
           @ (if has_sound then [Play_sound] else [])
           @ [Start_thread (Google_form_submitter name emp_id)]) s"


fun warning_report :: "effect \<Rightarrow> bool" where
  "warning_report (Popup (Submission_warning c)) = True"
| "warning_report (Popup Submission_timed_out) = True"
| "warning_report (Popup Submission_network_error) = True"
| "warning_report e = False"


definition reported_warning :: "'img app \<Rightarrow> 'img app \<Rightarrow> bool" where
  "reported_warning s s' = list_ex warning_report (emitted s s')"

section \<open>Training\<close>

text \<open>
  The sample directory is a list of entries: a file name and what \<open>cv2.imread\<close> makes of
  the file (\<open>None\<close> when it cannot be decoded). \<open>cv2.imwrite\<close> replaces the entry of
  that name or adds one.
\<close>

definition listdir :: "(string \<times> 'img option) list \<Rightarrow> string list" where
  "listdir d = map fst d"

definition imread :: "(string \<times> 'img option) list \<Rightarrow> string \<Rightarrow> 'img option" where
  "imread d file = (case map_of d file of None \<Rightarrow> None | Some content \<Rightarrow> content)"

definition imwrite :: "string \<Rightarrow> 'img \<Rightarrow> 'img app \<Rightarrow> 'img app" where
  "imwrite file img s = s\<lparr>known_faces_dir := AList.update file (Some img) (known_faces_dir s)\<rparr>"

text \<open>
  \<open>name, emp_id, _ = file.split("_", 2)\<close>: the text before the first underscore, the
  text between the first and the second, and the rest. With fewer than two underscores
  the unpacking raises \<open>ValueError\<close>, here \<open>None\<close>.
\<close>

fun split_once :: "char \<Rightarrow> string \<Rightarrow> (string \<times> string) option" where
  "split_once sep [] = None"
| "split_once sep (c # cs) =
     (if c = sep then Some ([], cs)
      else case split_once sep cs of None \<Rightarrow> None | Some (a, b) \<Rightarrow> Some (c # a, b))"

definition split_name :: "string \<Rightarrow> (string \<times> string \<times> string) option" where
  "split_name file =
     (case split_once CHR ''_'' file of
        None \<Rightarrow> None
      | Some (name, rest) \<Rightarrow>
          (case split_once CHR ''_'' rest of
             None \<Rightarrow> None
           | Some (emp_id, tail) \<Rightarrow> Some (name, emp_id, tail)))"

text \<open>The local variables of \<open>_train_recognizer\<close>, and what it logs on the way.\<close>

record 'img training =
  images :: "'img list"
  labels :: "int list"
  train_map :: "(int \<times> string \<times> string) list"
  label_id :: int
  train_log :: "effect list"

definition has_image_suffix :: "string \<Rightarrow> bool" where
  "has_image_suffix file = (endswith (lower file) ''.jpg'' \<or> endswith (lower file) ''.png'')"

text \<open>The body of the loop over the sorted file names; \<open>resize\<close> is \<open>cv2.resize\<close> to 200 by 200.\<close>

definition train_file ::
  "('img \<Rightarrow> 'img) \<Rightarrow> (string \<times> 'img option) list \<Rightarrow> string \<Rightarrow> 'img training \<Rightarrow> 'img training" where
  "train_file resize d file t =
     (if \<not> has_image_suffix file then t
      else case split_name file of
        None \<Rightarrow> t\<lparr>train_log := train_log t @ [Log WARN (Skipping_file file)]\<rparr>
      | Some (name, emp_id, tail) \<Rightarrow>
          (case imread d file of
             None \<Rightarrow> t
           | Some img_gray \<Rightarrow>
               t\<lparr>images := images t @ [resize img_gray],
                 labels := labels t @ [label_id t],
                 train_map := AList.update (label_id t) (lower name, upper emp_id) (train_map t),
                 label_id := label_id t + 1\<rparr>))"

fun train_loop ::
  "('img \<Rightarrow> 'img) \<Rightarrow> (string \<times> 'img option) list \<Rightarrow> string list \<Rightarrow> 'img training \<Rightarrow> 'img training" where
  "train_loop resize d [] t = t"
| "train_loop resize d (file # files) t = train_loop resize d files (train_file resize d file t)"

text \<open>
  \<open>recogniser.train(images, labels)\<close> of OpenCV raises on an empty training set and when
  the two lists differ in length.
\<close>

definition lbph_train :: "'img list \<Rightarrow> int list \<Rightarrow> exn + 'img recogniser" where
  "lbph_train imgs lbls =
     (if imgs = [] \<or> length imgs \<noteq> length lbls then Inl Cv2_error
      else Inr (Trained (zip imgs lbls)))"

definition train_start :: "'img training" where
  "train_start = \<lparr>images = [], labels = [], train_map = [], label_id = 0, train_log = []\<rparr>"

text \<open>
  \<open>_train_recognizer\<close>: the recogniser and the label map, or the exception that leaves the
  function, and the state with the log lines added.
\<close>

definition train_recognizer ::
  "('img \<Rightarrow> 'img) \<Rightarrow> 'img app
     \<Rightarrow> (exn + 'img recogniser \<times> (int \<times> string \<times> string) list) \<times> 'img app" where
  "train_recognizer resize s =
     (let t = train_loop resize (known_faces_dir s) (sort (listdir (known_faces_dir s))) train_start;
          s1 = emit (train_log t) s
      in if images t \<noteq> []
         then (case lbph_train (images t) (labels t) of
                 Inl e \<Rightarrow> (Inl e, s1)
               | Inr recogniser \<Rightarrow>
                   (Inr (recogniser, train_map t),
                    emit [Log INFO (Trained_line (length (images t)) (length (train_map t)))] s1))
         else (Inr (Untrained, train_map t), emit [Log INFO No_images_line] s1))"

text \<open>The state \<open>__init__\<close> builds over a sample directory.\<close>

definition blank_app :: "(string \<times> 'img option) list \<Rightarrow> 'img app" where
  "blank_app d = \<lparr>known_faces_dir = d, recognizer = Untrained, label_map = [],
                  last_seen_time = Map.empty, otp_storage = Map.empty,
                  pending_names = Map.empty, trace = []\<rparr>"

definition init_app :: "('img \<Rightarrow> 'img) \<Rightarrow> (string \<times> 'img option) list \<Rightarrow> exn + 'img app" where
  "init_app resize d =
     (case train_recognizer resize (blank_app d) of
        (Inl e, s) \<Rightarrow> Inl e
      | (Inr (r, m), s) \<Rightarrow> Inr (s\<lparr>recognizer := r, label_map := m\<rparr>))"

text \<open>
  The files training takes, in the order it takes them: those with an image suffix, two
  underscores and a readable image, by sorted name; and the identity it reads off a name.
\<close>

definition is_sample :: "(string \<times> 'img option) list \<Rightarrow> string \<Rightarrow> bool" where
  "is_sample d file = (has_image_suffix file \<and> split_name file \<noteq> None \<and> imread d file \<noteq> None)"

definition identity_of :: "string \<Rightarrow> string \<times> string" where
  "identity_of file = (case split_name file of None \<Rightarrow> ([], []) | Some (name, emp_id, tail) \<Rightarrow> (lower name, upper emp_id))"

definition samples :: "(string \<times> 'img option) list \<Rightarrow> string list" where
  "samples d = filter (is_sample d) (sort (listdir d))"

section \<open>The camera loop\<close>

definition RECOGNITION_INTERVAL :: real where
  "RECOGNITION_INTERVAL = 5 * 60"

text \<open>
  \<open>recognizer.predict\<close>: a recogniser that was never trained raises; what a trained one
  answers (a label and a distance, or an exception) is given by the parameter \<open>lbph\<close>.
\<close>

definition predict ::
  "(('img \<times> int) list \<Rightarrow> 'img \<Rightarrow> exn + int \<times> real) \<Rightarrow> 'img recogniser \<Rightarrow> 'img \<Rightarrow> exn + int \<times> real" where
  "predict lbph r face_roi =
     (case r of Untrained \<Rightarrow> Inl Cv2_error | Trained trained_on \<Rightarrow> lbph trained_on face_roi)"

text \<open>The \<open>try\<close> around \<open>predict\<close>: any exception gives label -1 and confidence 1000.\<close>

definition face_predict ::
  "(('img \<times> int) list \<Rightarrow> 'img \<Rightarrow> exn + int \<times> real) \<Rightarrow> 'img \<Rightarrow> 'img app \<Rightarrow> int \<times> real" where
  "face_predict lbph face_roi s =
     (case predict lbph (recognizer s) face_roi of Inl e \<Rightarrow> (- 1, 1000) | Inr lc \<Rightarrow> lc)"

text \<open>\<open>self.label_map.get(label, ("unknown", ""))\<close>.\<close>

definition label_get :: "(int \<times> string \<times> string) list \<Rightarrow> int \<Rightarrow> string \<times> string" where
  "label_get m label = (case map_of m label of None \<Rightarrow> (''unknown'', []) | Some ne \<Rightarrow> ne)"

text \<open>
  The rest of the loop body for one face, from the look-up of the label on; \<open>now\<close> is what
  \<open>time.time()\<close> returns, in seconds.
\<close>

definition face_act :: "real \<Rightarrow> int \<times> real \<Rightarrow> 'img app \<Rightarrow> 'img app" where
  "face_act now lc s =
     (let (name, emp_id) = label_get (label_map s) (fst lc);
          conf = snd lc
      in if conf < 60
         then (let last_seen = (case last_seen_time s emp_id of None \<Rightarrow> 0 | Some t \<Rightarrow> t)
               in if now - last_seen > RECOGNITION_INTERVAL
                  then emit [Store_last_seen emp_id now,
                             Start_thread (Attendance_submitter name emp_id),
                             Status (Attendance_recorded (title name)),
                             Draw_recognised (title name) emp_id]
                         (s\<lparr>last_seen_time := (last_seen_time s)(emp_id \<mapsto> now)\<rparr>)
                  else emit [Status (Attendance_already_recorded (title name)),
                             Draw_recognised (title name) emp_id] s)
         else emit [Draw_unknown] s)"

definition recognise_face ::
  "(('img \<times> int) list \<Rightarrow> 'img \<Rightarrow> exn + int \<times> real) \<Rightarrow> 'img \<times> real \<Rightarrow> 'img app \<Rightarrow> 'img app" where
  "recognise_face lbph face s = face_act (snd face) (face_predict lbph (fst face) s) s"

text \<open>
  One round of the loop reads a frame; the faces found in it come with the time read for
  each. A read that fails and a detector error leave no face to handle.
\<close>

datatype 'img camera_read = Read_failed | Detect_failed | Detected "('img \<times> real) list"

fun faces_of :: "'img camera_read \<Rightarrow> ('img \<times> real) list" where
  "faces_of Read_failed = []"
| "faces_of Detect_failed = []"
| "faces_of (Detected faces) = faces"

definition camera_round ::
  "(('img \<times> int) list \<Rightarrow> 'img \<Rightarrow> exn + int \<times> real) \<Rightarrow> 'img camera_read \<Rightarrow> 'img app \<Rightarrow> 'img app" where
  "camera_round lbph r s = fold (recognise_face lbph) (faces_of r) s"

definition camera_loop ::
  "(('img \<times> int) list \<Rightarrow> 'img \<Rightarrow> exn + int \<times> real) \<Rightarrow> 'img camera_read list \<Rightarrow> 'img app \<Rightarrow> 'img app" where
  "camera_loop lbph reads s = fold (camera_round lbph) reads s"

text \<open>The attendance threads a step started, by employee id.\<close>

fun dispatch_for :: "string \<Rightarrow> effect \<Rightarrow> bool" where
  "dispatch_for e (Start_thread (Attendance_submitter name emp_id)) = (emp_id = e)"
| "dispatch_for e x = False"

definition dispatches :: "string \<Rightarrow> 'img app \<Rightarrow> 'img app \<Rightarrow> nat" where
  "dispatches e s s' = length (filter (dispatch_for e) (emitted s s'))"

section \<open>Shell patterns\<close>

text \<open>
  \<open>glob.glob\<close> matches the file names of the directory against the last component of the
  pattern with \<open>fnmatch\<close>: a star matches any text, a question mark any character, a
  bracket expression a set of characters and ranges (negated by a leading exclamation
  mark; a bracket that is never closed stands for itself), anything else itself. Names
  that start with a dot are left out unless the pattern starts with one. The sample
  directory is flat: a name or id with a path separator is outside the model.
\<close>

datatype glob_tok = Lit char | Any_char | Star | Char_class bool "(char \<times> char) list"

text \<open>
  After an opening bracket: the text up to the closing one (which may not be the first
  character, nor the first after an exclamation mark), and what follows it.
\<close>

definition bracket :: "string \<Rightarrow> (string \<times> string) option" where
  "bracket r =
     (let r1 = (case r of [] \<Rightarrow> [] | c # t \<Rightarrow> if c = CHR ''!'' then t else r);
          r2 = (case r1 of [] \<Rightarrow> [] | c # t \<Rightarrow> if c = CHR '']'' then t else r1);
          body = takeWhile (\<lambda>c. c \<noteq> CHR '']'') r2;
          n = length r - length r2 + length body
      in if length body = length r2 then None else Some (take n r, drop (Suc n) r))"

fun class_items :: "string \<Rightarrow> (char \<times> char) list" where
  "class_items [] = []"
| "class_items [a] = [(a, a)]"
| "class_items [a, b] = [(a, a), (b, b)]"
| "class_items (a # m # b # r) =
     (if m = CHR ''-'' then (a, b) # class_items r else (a, a) # class_items (m # b # r))"

definition class_tok :: "string \<Rightarrow> glob_tok" where
  "class_tok stuff =
     (case stuff of
        [] \<Rightarrow> Char_class False []
      | c # t \<Rightarrow> if c = CHR ''!'' then Char_class True (class_items t)
                 else Char_class False (class_items stuff))"

function translate :: "string \<Rightarrow> glob_tok list" where
  "translate [] = []"
| "translate (c # r) =
     (if c = CHR ''*'' then Star # translate r
      else if c = CHR ''?'' then Any_char # translate r
      else if c = CHR ''[''
      then (case bracket r of
              None \<Rightarrow> Lit c # translate r
            | Some (stuff, after) \<Rightarrow> class_tok stuff # translate after)
      else Lit c # translate r)"
  by pat_completeness auto
termination
  by (relation "measure length") (auto simp: bracket_def Let_def split: if_splits)

fun tok_accepts :: "glob_tok \<Rightarrow> char \<Rightarrow> bool" where
  "tok_accepts (Lit a) c = (c = a)"
| "tok_accepts Any_char c = True"
| "tok_accepts Star c = True"
| "tok_accepts (Char_class negated items) c =
     (list_ex (\<lambda>(lo, hi). lo \<le> c \<and> c \<le> hi) items \<noteq> negated)"

fun glob_match :: "glob_tok list \<Rightarrow> string \<Rightarrow> bool" where
  "glob_match [] s = (s = [])"
| "glob_match (Star # ts) [] = glob_match ts []"
| "glob_match (Star # ts) (c # cs) = (glob_match ts (c # cs) \<or> glob_match (Star # ts) cs)"
| "glob_match (t # ts) [] = False"
| "glob_match (t # ts) (c # cs) = (tok_accepts t c \<and> glob_match ts cs)"

definition is_hidden :: "string \<Rightarrow> bool" where
  "is_hidden path = (case path of [] \<Rightarrow> False | c # t \<Rightarrow> c = CHR ''.'')"

text \<open>\<open>glob.glob(str(self._known_faces_dir / f"{name}_{emp_id}_*.jpg"))\<close>.\<close>

definition glob_samples :: "(string \<times> 'img option) list \<Rightarrow> string \<Rightarrow> string \<Rightarrow> string list" where
  "glob_samples d name emp_id =
     (let pattern = name @ ''_'' @ emp_id @ ''_*.jpg'';
          names = (if is_hidden pattern then listdir d else filter (\<lambda>x. \<not> is_hidden x) (listdir d))
      in filter (glob_match (translate pattern)) names)"

text \<open>A name or id that holds none of the characters shell patterns give a meaning to.\<close>

definition literal :: "string \<Rightarrow> bool" where
  "literal p = list_all (\<lambda>c. c \<noteq> CHR ''*'' \<and> c \<noteq> CHR ''?'' \<and> c \<noteq> CHR ''['') p"

section \<open>Capturing samples\<close>

definition SAMPLES_PER_USER :: int where
  "SAMPLES_PER_USER = 10"

text \<open>\<open>f"{name}_{emp_id}_{index:03d}.jpg"\<close>: the index in decimal, padded with zeros to three digits.\<close>

definition fmt03 :: "nat \<Rightarrow> string" where
  "fmt03 n = replicate (3 - length (decimal n)) CHR ''0'' @ decimal n"

definition sample_filename :: "string \<Rightarrow> string \<Rightarrow> nat \<Rightarrow> string" where
  "sample_filename name emp_id index = name @ ''_'' @ emp_id @ ''_'' @ fmt03 index @ ''.jpg''"

text \<open>The first name the label map has for an employee id, in the order of its entries.\<close>

fun name_of_id :: "(int \<times> string \<times> string) list \<Rightarrow> string \<Rightarrow> string option" where
  "name_of_id [] emp_id = None"
| "name_of_id ((lbl, nm, eid) # rest) emp_id =
     (if eid = emp_id then Some nm else name_of_id rest emp_id)"

text \<open>
  What one round of the capture loop meets: the stop event set, no frame in the queue, a
  detector that raises, or the crops of the faces detected in the latest frame.
\<close>

datatype 'img tick = Stop_set | No_frame | Detector_raises | Faces_seen "'img list"

text \<open>
  How a run ends: the function returned, an exception left it, or the rounds given were
  used up with the loop still going.
\<close>

datatype outcome = Returned | Raised exn | Running

fun capture_loop ::
  "('img \<Rightarrow> 'img) \<Rightarrow> string \<Rightarrow> string \<Rightarrow> nat \<Rightarrow> int \<Rightarrow> 'img tick list \<Rightarrow> nat \<Rightarrow> 'img app
     \<Rightarrow> outcome \<times> nat \<times> 'img app" where
  "capture_loop resize name emp_id start_index count_target [] collected s =
     (if int collected < count_target then (Running, collected, s) else (Returned, collected, s))"
| "capture_loop resize name emp_id start_index count_target (tick # ticks) collected s =
     (if \<not> int collected < count_target then (Returned, collected, s)
      else case tick of
        Stop_set \<Rightarrow> (Returned, collected, s)
      | No_frame \<Rightarrow> capture_loop resize name emp_id start_index count_target ticks collected s
      | Detector_raises \<Rightarrow> (Raised Cv2_error, collected, s)
      | Faces_seen faces \<Rightarrow>
          (case faces of
             [] \<Rightarrow> capture_loop resize name emp_id start_index count_target ticks collected
                     (emit [Status No_face_detected] s)
           | face # others \<Rightarrow>
               capture_loop resize name emp_id start_index count_target ticks (collected + 1)
                 (emit [Log INFO (Captured_line (collected + 1) count_target emp_id), Flash,
                        Status (Captured_photos (collected + 1) count_target)]
                    (imwrite (sample_filename name emp_id (start_index + collected))
                       (resize face) s))))"

text \<open>
  The end of \<open>_capture_samples\<close>, after the loop: the recogniser is trained again and the
  result stored, then the completion message is shown.
\<close>

definition retrain :: "('img \<Rightarrow> 'img) \<Rightarrow> bool \<Rightarrow> 'img app \<Rightarrow> outcome \<times> 'img app" where
  "retrain resize updating s =
     (case train_recognizer resize (emit [Log INFO Capture_complete] s) of
        (Inl e, s') \<Rightarrow> (Raised e, s')
      | (Inr (r, m), s') \<Rightarrow>
          (Returned,
           emit [Log INFO Update_finished,
                 Status (if updating then Face_updated else Registration_completed)]
             (s'\<lparr>recognizer := r, label_map := m\<rparr>)))"

text \<open>\<open>_capture_samples\<close>, over the rounds its loop meets.\<close>

definition capture_samples ::
  "('img \<Rightarrow> 'img) \<Rightarrow> string option \<Rightarrow> string \<Rightarrow> bool \<Rightarrow> int option \<Rightarrow> 'img tick list \<Rightarrow> 'img app
     \<Rightarrow> outcome \<times> 'img app" where
  "capture_samples resize name emp_id updating sample_count ticks s =
     (case (case name of None \<Rightarrow> name_of_id (label_map s) emp_id | Some n \<Rightarrow> Some n) of
        None \<Rightarrow> (Returned, emit [Log ERROR No_existing_face_line, Popup No_existing_face] s)
      | Some nm \<Rightarrow>
          (let count_target = (case sample_count of
                                 None \<Rightarrow> SAMPLES_PER_USER
                               | Some c \<Rightarrow> if c = 0 then SAMPLES_PER_USER else c);
               start_index = length (glob_samples (known_faces_dir s) nm emp_id);
               s1 = emit [Log INFO (Starting_capture emp_id count_target updating),
                          Status (Capturing_in 3), Status (Capturing_in 2), Status (Capturing_in 1),
                          Status Capturing_now] s
           in case capture_loop resize nm emp_id start_index count_target ticks 0 s1 of
                (Running, collected, s2) \<Rightarrow> (Running, s2)
              | (Raised e, collected, s2) \<Rightarrow> (Raised e, s2)
              | (Returned, collected, s2) \<Rightarrow> retrain resize updating s2))"

section \<open>One-time codes\<close>

text \<open>\<open>_generate_otp\<close>; \<open>drawn\<close> is what \<open>random.randint(100000, 999999)\<close> returns.\<close>

definition generate_otp :: "int \<Rightarrow> string" where
  "generate_otp drawn = py_str drawn"

text \<open>\<open>_send_otp_flow\<close>: the code and the name are stored, then the mail thread is started.\<close>

definition send_otp_flow :: "int \<Rightarrow> string \<Rightarrow> string \<Rightarrow> string option \<Rightarrow> 'img app \<Rightarrow> 'img app" where
  "send_otp_flow drawn emp_id email name s =
     (let otp = generate_otp drawn
      in emit [Popup Sending_otp, Start_thread (Send_otp_thread email otp)]
           (s\<lparr>otp_storage := (otp_storage s)(emp_id \<mapsto> otp),
              pending_names := (pending_names s)(emp_id \<mapsto> name)\<rparr>))"

text \<open>
  \<open>_verify\<close> of the verification popup, on the text of the input field:
  \<open>otp_input.text.strip() == self.otp_storage.get(emp_id)\<close>.
\<close>

definition otp_verify :: "string \<Rightarrow> string \<Rightarrow> 'img app \<Rightarrow> 'img app" where
  "otp_verify emp_id text s =
     (if Some (strip text) = otp_storage s emp_id
      then emit [Dismiss_popup,
                 Start_thread (Capture_samples_update
                   (case pending_names s emp_id of None \<Rightarrow> None | Some n \<Rightarrow> n) emp_id True 5)] s
      else emit [Clear_otp_input, Log WARN Incorrect_otp] s)"

text \<open>\<open>_resend\<close> of the verification popup.\<close>

definition otp_resend :: "int \<Rightarrow> string \<Rightarrow> string \<Rightarrow> 'img app \<Rightarrow> 'img app" where
  "otp_resend drawn emp_id email s =
     (let new_otp = generate_otp drawn
      in emit [Send_mail email new_otp, Clear_otp_input, Log INFO Resent_otp]
           (s\<lparr>otp_storage := (otp_storage s)(emp_id \<mapsto> new_otp)\<rparr>))"

text \<open>A verification succeeded when it started the capture thread.\<close>

fun capture_start :: "effect \<Rightarrow> bool" where
  "capture_start (Start_thread (Capture_samples_update name emp_id updating n)) = True"
| "capture_start e = False"

definition verified :: "'img app \<Rightarrow> 'img app \<Rightarrow> bool" where
  "verified s s' = list_ex capture_start (emitted s s')"

section \<open>The application as a sequence of events\<close>

text \<open>
  Every activity of the application, run to its end one after the other: a round of the
  camera loop, the two attendance workers, a capture session, and the three actions on
  one-time codes.
\<close>

datatype 'img event =
    Camera "'img camera_read"
  | Handle_recognition bool string string
  | Submit "string \<times> string" http_outcome string string
  | Capture "string option" string bool "int option" "'img tick list"
  | Send_otp int string string "string option"
  | Resend_otp int string string
  | Verify_otp string string

fun step ::
  "(('img \<times> int) list \<Rightarrow> 'img \<Rightarrow> exn + int \<times> real) \<Rightarrow> ('img \<Rightarrow> 'img) \<Rightarrow> 'img event \<Rightarrow> 'img app
     \<Rightarrow> 'img app" where
  "step lbph resize (Camera r) s = camera_round lbph r s"
| "step lbph resize (Handle_recognition has_sound name emp_id) s =
     handle_successful_recognition has_sound name emp_id s"
| "step lbph resize (Submit stamp outcome name emp_id) s =
     snd (submit_to_google_form stamp outcome name emp_id s)"
| "step lbph resize (Capture name emp_id updating sample_count ticks) s =
     snd (capture_samples resize name emp_id updating sample_count ticks s)"
| "step lbph resize (Send_otp drawn emp_id email name) s = send_otp_flow drawn emp_id email name s"
| "step lbph resize (Resend_otp drawn emp_id email) s = otp_resend drawn emp_id email s"
| "step lbph resize (Verify_otp emp_id text) s = otp_verify emp_id text s"

definition run ::
  "(('img \<times> int) list \<Rightarrow> 'img \<Rightarrow> exn + int \<times> real) \<Rightarrow> ('img \<Rightarrow> 'img) \<Rightarrow> 'img event list \<Rightarrow> 'img app
     \<Rightarrow> 'img app" where
  "run lbph resize events s = fold (step lbph resize) events s"

text \<open>The events that issue a code for an employee id.\<close>

fun issues :: "string \<Rightarrow> 'img event \<Rightarrow> bool" where
  "issues e (Send_otp drawn emp_id email name) = (emp_id = e)"
| "issues e (Resend_otp drawn emp_id email) = (emp_id = e)"
| "issues e ev = False"

section \<open>Retraining beside the camera loop\<close>

text \<open>
  The capture thread ends with
  \<open>self.recognizer, self.label_map = self._train_recognizer()\<close>: the call, then the store
  to \<open>self.recognizer\<close>, then the store to \<open>self.label_map\<close>. The camera thread reads
  \<open>self.recognizer\<close> for \<open>predict\<close> and, in its next statement, \<open>self.label_map\<close> for the
  look-up. Each of these five steps is atomic and the two threads interleave freely. The
  camera thread keeps a note of the recogniser and the map it read.
\<close>

datatype 'img retrainer =
    Retrain_pending
  | Store_recognizer "'img recogniser" "(int \<times> string \<times> string) list"
  | Store_label_map "(int \<times> string \<times> string) list"
  | Retrain_done
  | Retrain_raised exn

datatype 'img pipeline =
    Predict_pending
  | Lookup_pending "'img recogniser" "int \<times> real"
  | Face_done "'img recogniser" "(int \<times> string \<times> string) list"

record 'img threads =
  shared :: "'img app"
  retrainer :: "'img retrainer"
  pipeline :: "'img pipeline"

definition retrainer_step :: "('img \<Rightarrow> 'img) \<Rightarrow> 'img threads \<Rightarrow> 'img threads" where
  "retrainer_step resize c =
     (case retrainer c of
        Retrain_pending \<Rightarrow>
          (case train_recognizer resize (shared c) of
             (Inl e, s) \<Rightarrow> c\<lparr>shared := s, retrainer := Retrain_raised e\<rparr>
           | (Inr (r, m), s) \<Rightarrow> c\<lparr>shared := s, retrainer := Store_recognizer r m\<rparr>)
      | Store_recognizer r m \<Rightarrow>
          c\<lparr>shared := (shared c)\<lparr>recognizer := r\<rparr>, retrainer := Store_label_map m\<rparr>
      | Store_label_map m \<Rightarrow>
          c\<lparr>shared := (shared c)\<lparr>label_map := m\<rparr>, retrainer := Retrain_done\<rparr>
      | Retrain_done \<Rightarrow> c
      | Retrain_raised e \<Rightarrow> c)"

definition pipeline_step ::
  "(('img \<times> int) list \<Rightarrow> 'img \<Rightarrow> exn + int \<times> real) \<Rightarrow> 'img \<times> real \<Rightarrow> 'img threads \<Rightarrow> 'img threads" where
  "pipeline_step lbph face c =
     (case pipeline c of
        Predict_pending \<Rightarrow>
          c\<lparr>pipeline := Lookup_pending (recognizer (shared c))
                           (face_predict lbph (fst face) (shared c))\<rparr>
      | Lookup_pending r lc \<Rightarrow>
          c\<lparr>shared := face_act (snd face) lc (shared c),
            pipeline := Face_done r (label_map (shared c))\<rparr>
      | Face_done r m \<Rightarrow> c)"

datatype thread = Retrainer | Pipeline

fun thread_step ::
  "(('img \<times> int) list \<Rightarrow> 'img \<Rightarrow> exn + int \<times> real) \<Rightarrow> ('img \<Rightarrow> 'img) \<Rightarrow> 'img \<times> real \<Rightarrow> thread
     \<Rightarrow> 'img threads \<Rightarrow> 'img threads" where
  "thread_step lbph resize face Retrainer c = retrainer_step resize c"
| "thread_step lbph resize face Pipeline c = pipeline_step lbph face c"

definition interleave ::
  "(('img \<times> int) list \<Rightarrow> 'img \<Rightarrow> exn + int \<times> real) \<Rightarrow> ('img \<Rightarrow> 'img) \<Rightarrow> 'img \<times> real \<Rightarrow> thread list
     \<Rightarrow> 'img threads \<Rightarrow> 'img threads" where
  "interleave lbph resize face schedule c = fold (thread_step lbph resize face) schedule c"

definition both_pending :: "'img app \<Rightarrow> 'img threads" where
  "both_pending s = \<lparr>shared = s, retrainer = Retrain_pending, pipeline = Predict_pending\<rparr>"

text \<open>The recogniser and the label map the camera thread used for its face, once it is done.\<close>

definition pair_read :: "'img threads \<Rightarrow> ('img recogniser \<times> (int \<times> string \<times> string) list) option" where
  "pair_read c = (case pipeline c of Face_done r m \<Rightarrow> Some (r, m) | _ \<Rightarrow> None)"

section \<open>A recogniser for examples\<close>

text \<open>
  Images as numbers, and a nearest-neighbour classifier over them that raises on no
  samples: a stand-in for the recogniser of OpenCV in the examples below.
\<close>

fun nearest :: "(nat \<times> int) list \<Rightarrow> nat \<Rightarrow> exn + int \<times> real" where
  "nearest [] x = Inl Cv2_error"
| "nearest ((img, label) # rest) x =
     (let d = real (if img \<le> x then x - img else img - x)
      in case nearest rest x of
           Inl e \<Rightarrow> Inr (label, d)
         | Inr (label', d') \<Rightarrow> if d \<le> d' then Inr (label, d) else Inr (label', d'))"

section \<open>An example installation\<close>

text \<open>One enrolled sample of one employee, and the state the application starts in over it.\<close>

definition desk_dir :: "(string \<times> nat option) list" where
  "desk_dir = [(''alice_E001_000.jpg'', Some 10)]"

definition desk :: "nat app" where
  "desk = (blank_app desk_dir)\<lparr>recognizer := Trained [(10, 0)],
                                label_map := [(0, ''alice'', ''E001'')]\<rparr>"

text \<open>A larger directory, with files training skips, and one with no sample at all.\<close>

definition office_dir :: "(string \<times> nat option) list" where
  "office_dir = [(''bob_E002_000.jpg'', Some 20), (''alice_E001_001.jpg'', Some 11),
                 (''alice_E001_000.jpg'', Some 10), (''user_emails.json'', None),
                 (''notes.jpg'', Some 5), (''Carol_e003_000.PNG'', Some 30),
                 (''bad_x_1.jpg'', None)]"

definition bare_dir :: "(string \<times> nat option) list" where
  "bare_dir = [(''user_emails.json'', None), (''notes.jpg'', Some 5)]"

text \<open>
  Two samples with letters beyond ASCII in their names: \<open>JOS\<close>, E with acute (U+00C9), an
  id of e with acute (U+00E9) and 7; and \<open>Stra\<close>, sharp s (U+00DF), \<open>e\<close>, an id of sharp s
  and 1.
\<close>

definition abroad_dir :: "(string \<times> nat option) list" where
  "abroad_dir = [(''Stra'' @ [CHR 0xDF] @ ''e_'' @ [CHR 0xDF] @ ''1_000.JPG'', Some 41),
                 (''JOS'' @ [CHR 0xC9] @ ''_'' @ [CHR 0xE9] @ ''7_000.jpg'', Some 40)]"

text \<open>An employee with ten samples, numbered 000 to 009.\<close>

definition ten_dir :: "(string \<times> nat option) list" where
  "ten_dir = [(''alice_E001_000.jpg'', Some 0), (''alice_E001_001.jpg'', Some 1),
              (''alice_E001_002.jpg'', Some 2), (''alice_E001_003.jpg'', Some 3),
              (''alice_E001_004.jpg'', Some 4), (''alice_E001_005.jpg'', Some 5),
              (''alice_E001_006.jpg'', Some 6), (''alice_E001_007.jpg'', Some 7),
              (''alice_E001_008.jpg'', Some 8), (''alice_E001_009.jpg'', Some 9)]"

definition ten :: "nat app" where
  "ten = (blank_app ten_dir)\<lparr>recognizer := Trained (map (\<lambda>i. (i, int i)) [0..<10]),
                               label_map := map (\<lambda>i. (int i, ''alice'', ''E001'')) [0..<10]\<rparr>"

text \<open>The first installation after a sample of a new employee was written, before the retraining.\<close>

definition enrolling :: "nat app" where
  "enrolling = desk\<lparr>known_faces_dir := desk_dir @ [(''aaron_E000_000.jpg'', Some 50)]\<rparr>"

section \<open>Notions for the proofs\<close>

text \<open>Reading a string of digits back as a number.\<close>

definition undecimal :: "string \<Rightarrow> nat" where
  "undecimal s = foldl (\<lambda>a c. 10 * a + ((of_char c :: nat) - 48)) 0 s"

text \<open>
  The faces a capture session writes, in order: the first face of every round that saw
  one, over the rounds before the stop event is set or the detector raises, up to the
  number of samples wanted.
\<close>

fun first_faces :: "'img tick list \<Rightarrow> 'img list" where
  "first_faces [] = []"
| "first_faces (Stop_set # ticks) = []"
| "first_faces (Detector_raises # ticks) = []"
| "first_faces (No_frame # ticks) = first_faces ticks"
| "first_faces (Faces_seen [] # ticks) = first_faces ticks"
| "first_faces (Faces_seen (face # others) # ticks) = face # first_faces ticks"

definition captured :: "int \<Rightarrow> 'img tick list \<Rightarrow> 'img list" where
  "captured count_target ticks = take (nat count_target) (first_faces ticks)"

text \<open>What holds of the local variables between two rounds of the training loop.\<close>

definition train_inv :: "'img training \<Rightarrow> bool" where
  "train_inv t = (label_id t = int (length (images t))
                  \<and> labels t = map int [0..<length (images t)]
                  \<and> map fst (train_map t) = map int [0..<length (images t)])"

text \<open>How far the retraining thread has come: the number of its steps taken, up to three.\<close>

fun stage :: "'img retrainer \<Rightarrow> nat" where
  "stage Retrain_pending = 0"
| "stage (Store_recognizer r m) = 1"
| "stage (Store_label_map m) = 2"
| "stage Retrain_done = 3"
| "stage (Retrain_raised e) = 3"

text \<open>
  What holds of the two threads over a state \<open>s\<close> at every moment: the sample directory is
  that of \<open>s\<close>, and the recogniser and the label map are those of \<open>s\<close> or those of the
  training run, according to the stores made so far.
\<close>

definition consistent_with :: "('img \<Rightarrow> 'img) \<Rightarrow> 'img app \<Rightarrow> 'img threads \<Rightarrow> bool" where
  "consistent_with resize s c =
     (known_faces_dir (shared c) = known_faces_dir s
      \<and> recognizer (shared c)
          = (if 2 \<le> stage (retrainer c) then fst (projr (fst (train_recognizer resize s)))
             else recognizer s)
      \<and> label_map (shared c)
          = (if 3 \<le> stage (retrainer c) then snd (projr (fst (train_recognizer resize s)))
             else label_map s)
      \<and> (case retrainer c of
            Retrain_pending \<Rightarrow> True
          | Store_recognizer r m \<Rightarrow> r = fst (projr (fst (train_recognizer resize s)))
                                    \<and> m = snd (projr (fst (train_recognizer resize s)))
          | Store_label_map m \<Rightarrow> m = snd (projr (fst (train_recognizer resize s)))
          | Retrain_done \<Rightarrow> True
          | Retrain_raised e \<Rightarrow> False))"

section \<open>Facts about the trace\<close>

lemma emitted_emit [simp]: "emitted s (emit es s) = es"
  by (simp add: emitted_def emit_def)

lemma emitted_emit2 [simp]: "emitted s (emit es2 (emit es1 s)) = es1 @ es2"
  by (simp add: emitted_def emit_def)

lemma emit_fields [simp]:
  "last_seen_time (emit es s) = last_seen_time s"
  "otp_storage (emit es s) = otp_storage s"
  "pending_names (emit es s) = pending_names s"
  "known_faces_dir (emit es s) = known_faces_dir s"
  "recognizer (emit es s) = recognizer s"
  "label_map (emit es s) = label_map s"
  "trace (emit es s) = trace s @ es"
  by (simp_all add: emit_def)

lemma desk_is_init: "init_app id desk_dir = Inr (emit [Log INFO (Trained_line 1 1)] desk)"
  by (simp add: init_app_def train_recognizer_def desk_dir_def blank_app_def listdir_def train_start_def
      train_file_def has_image_suffix_def endswith_def lower_def lower_char_def is_upper_def split_name_def
      imread_def upper_def upper_char_def has_capital_def between_def lbph_train_def emit_def Let_def desk_def)

section \<open>Facts about the camera loop\<close>

lemma emitted_append: "trace s' = trace s @ es \<Longrightarrow> emitted s s' = es"
  by (simp add: emitted_def)

lemma face_act_fields [simp]:
  "label_map (face_act now lc s) = label_map s"
  "recognizer (face_act now lc s) = recognizer s"
  "known_faces_dir (face_act now lc s) = known_faces_dir s"
  "otp_storage (face_act now lc s) = otp_storage s"
  "pending_names (face_act now lc s) = pending_names s"
  by (simp_all add: face_act_def Let_def split_def)

lemma face_act_emitted:
  assumes "label_get (label_map s) (fst lc) = (name, e)"
  shows "emitted s (face_act now lc s) =
     (if snd lc < 60
      then (if now - (case last_seen_time s e of None \<Rightarrow> 0 | Some t \<Rightarrow> t) > RECOGNITION_INTERVAL
            then [Store_last_seen e now, Start_thread (Attendance_submitter name e),
                  Status (Attendance_recorded (title name)), Draw_recognised (title name) e]
            else [Status (Attendance_already_recorded (title name)), Draw_recognised (title name) e])
      else [Draw_unknown])"
  using assms by (simp add: face_act_def Let_def emitted_def emit_def)

lemma face_act_last_seen:
  assumes "label_get (label_map s) (fst lc) = (name, e)"
  shows "last_seen_time (face_act now lc s) =
     (if snd lc < 60 \<and> now - (case last_seen_time s e of None \<Rightarrow> 0 | Some t \<Rightarrow> t) > RECOGNITION_INTERVAL
      then (last_seen_time s)(e \<mapsto> now) else last_seen_time s)"
  using assms by (simp add: face_act_def Let_def)

lemma face_act_trace: "\<exists>es. trace (face_act now lc s) = trace s @ es"
  by (simp add: face_act_def Let_def split_def)

lemma dispatches_face_act:
  assumes "label_get (label_map s) (fst lc) = (name, e)"
  shows "dispatches e' s (face_act now lc s) =
     (if e' = e \<and> snd lc < 60 \<and> now - (case last_seen_time s e of None \<Rightarrow> 0 | Some t \<Rightarrow> t) > RECOGNITION_INTERVAL
      then 1 else 0)"
  by (simp add: dispatches_def face_act_emitted [OF assms])

lemma dispatches_trans:
  assumes "trace s' = trace s @ a" "trace s'' = trace s' @ b"
  shows "dispatches e s s'' = dispatches e s s' + dispatches e s' s''"
  using assms by (simp add: dispatches_def emitted_def)

lemma recognise_face_trace: "\<exists>es. trace (recognise_face lbph f s) = trace s @ es"
  by (simp add: recognise_face_def face_act_trace)

lemma fold_recognise_trace: "\<exists>es. trace (fold (recognise_face lbph) fs s) = trace s @ es"
proof (induction fs arbitrary: s)
  case Nil
  then show ?case by simp
next
  case (Cons f fs)
  obtain a where a: "trace (recognise_face lbph f s) = trace s @ a"
    using recognise_face_trace by blast
  obtain b where "trace (fold (recognise_face lbph) fs (recognise_face lbph f s)) = trace (recognise_face lbph f s) @ b"
    using Cons.IH by blast
  with a show ?case by simp
qed

lemma dispatches_recognise_face:
  "dispatches e s (recognise_face lbph f s) =
     (if snd (label_get (label_map s) (fst (face_predict lbph (fst f) s))) = e
         \<and> snd (face_predict lbph (fst f) s) < 60
         \<and> snd f - (case last_seen_time s e of None \<Rightarrow> 0 | Some t \<Rightarrow> t) > RECOGNITION_INTERVAL
      then 1 else 0)"
proof -
  obtain name e' where ne: "label_get (label_map s) (fst (face_predict lbph (fst f) s)) = (name, e')"
    by (cases "label_get (label_map s) (fst (face_predict lbph (fst f) s))")
  show ?thesis
    unfolding recognise_face_def dispatches_face_act [OF ne] using ne by auto
qed

lemma last_seen_recognise_face:
  "last_seen_time (recognise_face lbph f s) e =
     (if snd (label_get (label_map s) (fst (face_predict lbph (fst f) s))) = e
         \<and> snd (face_predict lbph (fst f) s) < 60
         \<and> snd f - (case last_seen_time s e of None \<Rightarrow> 0 | Some t \<Rightarrow> t) > RECOGNITION_INTERVAL
      then Some (snd f) else last_seen_time s e)"
proof -
  obtain name e' where ne: "label_get (label_map s) (fst (face_predict lbph (fst f) s)) = (name, e')"
    by (cases "label_get (label_map s) (fst (face_predict lbph (fst f) s))")
  show ?thesis
    unfolding recognise_face_def face_act_last_seen [OF ne] using ne by auto
qed

lemma quiet_within_window:
  assumes "last_seen_time s e = Some t0" "\<forall>f \<in> set fs. snd f - t0 \<le> RECOGNITION_INTERVAL"
  shows "dispatches e s (fold (recognise_face lbph) fs s) = 0
         \<and> last_seen_time (fold (recognise_face lbph) fs s) e = Some t0"
  using assms
proof (induction fs arbitrary: s)
  case Nil
  then show ?case by (simp add: dispatches_def emitted_def)
next
  case (Cons f fs)
  let ?s1 = "recognise_face lbph f s"
  have d0: "dispatches e s ?s1 = 0"
    using Cons.prems by (simp add: dispatches_recognise_face)
  have t1: "last_seen_time ?s1 e = Some t0"
    using Cons.prems by (simp add: last_seen_recognise_face)
  have ih: "dispatches e ?s1 (fold (recognise_face lbph) fs ?s1) = 0
         \<and> last_seen_time (fold (recognise_face lbph) fs ?s1) e = Some t0"
    using Cons.IH [OF t1] Cons.prems(2) by simp
  obtain a where a: "trace ?s1 = trace s @ a"
    using recognise_face_trace by blast
  obtain b where b: "trace (fold (recognise_face lbph) fs ?s1) = trace ?s1 @ b"
    using fold_recognise_trace by blast
  show ?case
    using dispatches_trans [OF a b, of e] d0 ih by simp
qed

lemma at_most_one_within_window:
  assumes "\<forall>f \<in> set fs. \<forall>g \<in> set fs. snd g - snd f \<le> RECOGNITION_INTERVAL"
  shows "dispatches e s (fold (recognise_face lbph) fs s) \<le> 1"
  using assms
proof (induction fs arbitrary: s)
  case Nil
  then show ?case by (simp add: dispatches_def emitted_def)
next
  case (Cons f fs)
  let ?s1 = "recognise_face lbph f s"
  obtain a where a: "trace ?s1 = trace s @ a"
    using recognise_face_trace by blast
  obtain b where b: "trace (fold (recognise_face lbph) fs ?s1) = trace ?s1 @ b"
    using fold_recognise_trace by blast
  have sum: "dispatches e s (fold (recognise_face lbph) (f # fs) s)
             = dispatches e s ?s1 + dispatches e ?s1 (fold (recognise_face lbph) fs ?s1)"
    using dispatches_trans [OF a b, of e] by simp
  show ?case
  proof (cases "dispatches e s ?s1 = 0")
    case True
    have "dispatches e ?s1 (fold (recognise_face lbph) fs ?s1) \<le> 1"
      using Cons.IH Cons.prems by simp
    with True sum show ?thesis by simp
  next
    case False
    then have one: "dispatches e s ?s1 = 1" and t: "last_seen_time ?s1 e = Some (snd f)"
      by (simp_all add: dispatches_recognise_face last_seen_recognise_face split: if_splits)
    have "\<forall>g \<in> set fs. snd g - snd f \<le> RECOGNITION_INTERVAL"
      using Cons.prems by simp
    from quiet_within_window [OF t this]
    have "dispatches e ?s1 (fold (recognise_face lbph) fs ?s1) = 0" by simp
    with one sum show ?thesis by simp
  qed
qed

lemma camera_loop_fold:
  "camera_loop lbph reads s = fold (recognise_face lbph) (concat (map faces_of reads)) s"
  unfolding camera_loop_def
  by (induction reads arbitrary: s) (simp_all add: camera_round_def)

lemma name_of_id_None: "name_of_id m e = None \<longleftrightarrow> (\<forall>x \<in> set m. snd (snd x) \<noteq> e)"
  by (induction m e rule: name_of_id.induct) auto

section \<open>Facts about decimal numbers and strings\<close>

lemma of_char_digit: "d < 10 \<Longrightarrow> (of_char (digit_char d) :: nat) = 48 + d"
  by (simp add: digit_char_def)

lemma digit_char_inj:
  assumes "a < 10" "b < 10" "digit_char a = digit_char b"
  shows "a = b"
proof -
  have "(of_char (digit_char a) :: nat) = of_char (digit_char b)"
    by (simp only: assms(3))
  then have "48 + a = 48 + b"
    by (simp only: of_char_digit [OF assms(1)] of_char_digit [OF assms(2)])
  then show ?thesis by simp
qed

lemma is_digit_digit_char: "d < 10 \<Longrightarrow> is_digit (digit_char d)"
  by (simp add: is_digit_def of_char_digit)

lemma decimal_small: "n < 10 \<Longrightarrow> decimal n = [digit_char n]"
  by (simp add: decimal.simps)

lemma decimal_big: "\<not> n < 10 \<Longrightarrow> decimal n = decimal (n div 10) @ [digit_char (n mod 10)]"
  by (subst decimal.simps) simp

lemma decimal_not_empty: "decimal n \<noteq> []"
  by (cases "n < 10") (simp_all add: decimal_small decimal_big)

lemma decimal_digits: "list_all is_digit (decimal n)"
proof (induction n rule: decimal.induct)
  case (1 n)
  show ?case
  proof (cases "n < 10")
    case True
    then show ?thesis by (simp add: decimal_small is_digit_digit_char)
  next
    case False
    with "1" show ?thesis by (simp add: decimal_big is_digit_digit_char)
  qed
qed

lemma length_decimal: "10 ^ k \<le> n \<Longrightarrow> n < 10 ^ Suc k \<Longrightarrow> length (decimal n) = Suc k"
proof (induction k arbitrary: n)
  case 0
  then show ?case by (simp add: decimal_small)
next
  case (Suc k)
  then have big: "\<not> n < 10"
    by (metis One_nat_def Suc_le_eq le_trans linorder_not_less one_le_numeral one_le_power power_Suc0_right power_increasing  zero_less_Suc) 
  have "10 ^ k \<le> n div 10" using Suc.prems by simp
  moreover have "n div 10 < 10 ^ Suc k" using Suc.prems by (simp add: less_mult_imp_div_less mult.commute)
  ultimately have "length (decimal (n div 10)) = Suc k" by (rule Suc.IH)
  with big show ?case by (simp add: decimal_big)
qed

lemma decimal_inj: "decimal m = decimal n \<Longrightarrow> m = n"
proof (induction m arbitrary: n rule: decimal.induct)
  case (1 m)
  show ?case
  proof (cases "m < 10")
    case True
    then have one: "decimal n = [digit_char m]" using "1.prems" by (simp add: decimal_small)
    have "n < 10"
    proof (rule ccontr)
      assume "\<not> n < 10"
      then have "decimal n = decimal (n div 10) @ [digit_char (n mod 10)]" by (rule decimal_big)
      with one decimal_not_empty [of "n div 10"] show False by simp
    qed
    with one True show ?thesis by (simp add: decimal_small digit_char_inj)
  next
    case False
    then have m: "decimal m = decimal (m div 10) @ [digit_char (m mod 10)]" by (rule decimal_big)
    have nbig: "\<not> n < 10"
    proof
      assume "n < 10"
      then have "decimal n = [digit_char n]" by (rule decimal_small)
      with m "1.prems" decimal_not_empty [of "m div 10"] show False by simp
    qed
    then have n: "decimal n = decimal (n div 10) @ [digit_char (n mod 10)]" by (rule decimal_big)
    from m n "1.prems" have eq: "decimal (m div 10) = decimal (n div 10)"
      and d: "digit_char (m mod 10) = digit_char (n mod 10)" by simp_all
    from "1.IH" [OF False eq] have "m div 10 = n div 10" .
    moreover from d have "m mod 10 = n mod 10" by (simp add: digit_char_inj)
    ultimately show ?thesis by (metis div_mult_mod_eq)
  qed
qed

lemma digit_char_eval:
  "digit_char 0 = CHR ''0''" "digit_char (Suc 0) = CHR ''1''" "digit_char 2 = CHR ''2''"
  "digit_char 3 = CHR ''3''" "digit_char 4 = CHR ''4''" "digit_char 5 = CHR ''5''"
  "digit_char 6 = CHR ''6''" "digit_char 7 = CHR ''7''" "digit_char 8 = CHR ''8''"
  "digit_char 9 = CHR ''9''"
  by (simp_all add: digit_char_def char_of_def bit_Suc_0_iff)

lemma decimal_eval:
  "decimal 0 = ''0''" "decimal (Suc 0) = ''1''"
  "decimal (numeral k) =
     (if numeral k < (10::nat) then [digit_char (numeral k)]
      else decimal (numeral k div 10) @ [digit_char (numeral k mod 10)])"
  by (simp_all add: decimal.simps [of 0] decimal.simps [of "Suc 0"] decimal.simps [of "numeral k"]
      digit_char_eval)

lemma digit_not_space: "is_digit c \<Longrightarrow> \<not> is_space c"
  by (auto simp: is_digit_def is_space_def)

lemma strip_no_space: "list_all (\<lambda>c. \<not> is_space c) s \<Longrightarrow> strip s = s"
proof (cases s rule: rev_cases)
  case Nil
  then show ?thesis by (simp add: strip_def)
next
  case (snoc ys y)
  assume a: "list_all (\<lambda>c. \<not> is_space c) s"
  then have hd: "dropWhile is_space s = s"
    by (cases s) simp_all
  from a snoc have "\<not> is_space y" by simp
  then have "dropWhile is_space (rev s) = rev s" using snoc by simp
  with hd show ?thesis by (simp add: strip_def)
qed

lemma strip_decimal: "strip (decimal n) = decimal n"
proof -
  have "list_all (\<lambda>c. \<not> is_space c) (decimal n)"
    using decimal_digits [of n] by (simp add: list_all_iff digit_not_space)
  then show ?thesis by (rule strip_no_space)
qed

lemma generate_otp_decimal: "0 \<le> drawn \<Longrightarrow> generate_otp drawn = decimal (nat drawn)"
  by (simp add: generate_otp_def py_str_def)

section \<open>Facts about the attendance workers\<close>

lemma submit_last_seen:
  "last_seen_time (snd (submit_to_google_form stamp outcome name emp_id s)) = last_seen_time s"
  by (cases outcome) (simp_all add: submit_to_google_form_def Let_def)

lemma handle_last_seen:
  "last_seen_time (handle_successful_recognition has_sound name emp_id s) = last_seen_time s"
  by (simp add: handle_successful_recognition_def)

section \<open>Facts about what the activities leave alone\<close>

lemma imwrite_fields [simp]:
  "otp_storage (imwrite f img s) = otp_storage s"
  "pending_names (imwrite f img s) = pending_names s"
  "last_seen_time (imwrite f img s) = last_seen_time s"
  "recognizer (imwrite f img s) = recognizer s"
  "label_map (imwrite f img s) = label_map s"
  "trace (imwrite f img s) = trace s"
  "known_faces_dir (imwrite f img s) = AList.update f (Some img) (known_faces_dir s)"
  by (simp_all add: imwrite_def)

lemma train_recognizer_fields [simp]:
  "otp_storage (snd (train_recognizer resize s)) = otp_storage s"
  "pending_names (snd (train_recognizer resize s)) = pending_names s"
  "last_seen_time (snd (train_recognizer resize s)) = last_seen_time s"
  "recognizer (snd (train_recognizer resize s)) = recognizer s"
  "label_map (snd (train_recognizer resize s)) = label_map s"
  "known_faces_dir (snd (train_recognizer resize s)) = known_faces_dir s"
  by (simp_all add: train_recognizer_def Let_def split: sum.splits)

lemma capture_loop_otp:
  "otp_storage (snd (snd (capture_loop resize name emp_id start target ticks collected s))) = otp_storage s"
proof (induction ticks arbitrary: collected s)
  case Nil
  then show ?case by simp
next
  case (Cons tick ticks)
  show ?case
  proof (cases tick)
    case (Faces_seen faces)
    then show ?thesis using Cons.IH by (cases faces) simp_all
  qed (simp_all add: Cons.IH)
qed

lemma capture_loop_otp':
  "capture_loop resize name emp_id start target ticks collected s = (out, c, s2)
     \<Longrightarrow> otp_storage s2 = otp_storage s"
  using capture_loop_otp [of resize name emp_id start target ticks collected s] by simp

lemma train_recognizer_otp':
  "train_recognizer resize s = (res, s') \<Longrightarrow> otp_storage s' = otp_storage s"
  using train_recognizer_fields(1) [of resize s] by simp

lemma retrain_otp: "otp_storage (snd (retrain resize updating s)) = otp_storage s"
  unfolding retrain_def
  by (simp split: prod.splits sum.splits) (auto dest!: train_recognizer_otp')

lemma capture_samples_otp:
  "otp_storage (snd (capture_samples resize name emp_id updating sample_count ticks s)) = otp_storage s"
  unfolding capture_samples_def Let_def
  by (simp add: retrain_otp split: option.splits prod.splits outcome.splits)
     (auto dest!: capture_loop_otp')

lemma recognise_face_otp [simp]: "otp_storage (recognise_face lbph f s) = otp_storage s"
  by (simp add: recognise_face_def)

lemma fold_recognise_otp: "otp_storage (fold (recognise_face lbph) fs s) = otp_storage s"
  by (induction fs arbitrary: s) simp_all

lemma camera_round_otp: "otp_storage (camera_round lbph r s) = otp_storage s"
  by (simp add: camera_round_def fold_recognise_otp)

lemma submit_otp:
  "otp_storage (snd (submit_to_google_form stamp outcome name emp_id s)) = otp_storage s"
  by (cases outcome) (simp_all add: submit_to_google_form_def Let_def)

lemma otp_verify_fields [simp]:
  "otp_storage (otp_verify e text s) = otp_storage s"
  "pending_names (otp_verify e text s) = pending_names s"
  by (simp_all add: otp_verify_def)

lemma step_otp: "\<not> issues e ev \<Longrightarrow> otp_storage (step lbph resize ev s) e = otp_storage s e"
  by (cases ev)
     (simp_all add: camera_round_def fold_recognise_otp handle_successful_recognition_def submit_otp
        capture_samples_otp send_otp_flow_def otp_resend_def Let_def)

lemma run_otp:
  "list_all (\<lambda>ev. \<not> issues e ev) evs \<Longrightarrow> otp_storage (run lbph resize evs s) e = otp_storage s e"
  unfolding run_def
  by (induction evs arbitrary: s) (simp_all add: step_otp)

lemma verified_iff: "verified s (otp_verify e text s) \<longleftrightarrow> Some (strip text) = otp_storage s e"
  by (simp add: verified_def otp_verify_def)

lemma py_str_inj:
  assumes "0 \<le> a" "0 \<le> b" "py_str a = py_str b"
  shows "a = b"
proof -
  from assms have "decimal (nat a) = decimal (nat b)" by (simp add: py_str_def)
  then have "nat a = nat b" by (rule decimal_inj)
  with assms show ?thesis by simp
qed

section \<open>Facts about training\<close>

lemma train_file_sample:
  "is_sample d file \<Longrightarrow> train_file resize d file t =
     t\<lparr>images := images t @ [resize (the (imread d file))],
       labels := labels t @ [label_id t],
       train_map := AList.update (label_id t) (identity_of file) (train_map t),
       label_id := label_id t + 1\<rparr>"
  by (auto simp: is_sample_def train_file_def identity_of_def)

lemma train_file_other:
  "\<not> is_sample d file \<Longrightarrow>
     images (train_file resize d file t) = images t
     \<and> labels (train_file resize d file t) = labels t
     \<and> train_map (train_file resize d file t) = train_map t
     \<and> label_id (train_file resize d file t) = label_id t"
  by (auto simp: is_sample_def train_file_def split: option.splits)

lemma update_fresh: "k \<notin> fst ` set al \<Longrightarrow> AList.update k v al = al @ [(k, v)]"
  by (induction al) auto

lemma train_loop_char:
  assumes "train_inv t"
  shows "train_inv (train_loop resize d files t)
       \<and> images (train_loop resize d files t)
           = images t @ map (\<lambda>x. resize (the (imread d x))) (filter (is_sample d) files)
       \<and> map snd (train_map (train_loop resize d files t))
           = map snd (train_map t) @ map identity_of (filter (is_sample d) files)"
  using assms
proof (induction files arbitrary: t)
  case Nil
  then show ?case by simp
next
  case (Cons f files)
  show ?case
  proof (cases "is_sample d f")
    case True
    have fresh: "label_id t \<notin> fst ` set (train_map t)"
    proof -
      have "fst ` set (train_map t) = set (map int [0..<length (images t)])"
        using Cons.prems by (metis train_inv_def set_map)
      then show ?thesis using Cons.prems by (auto simp: train_inv_def)
    qed
    let ?t = "train_file resize d f t"
    have t': "?t = t\<lparr>images := images t @ [resize (the (imread d f))],
       labels := labels t @ [label_id t],
       train_map := train_map t @ [(label_id t, identity_of f)],
       label_id := label_id t + 1\<rparr>"
      using True fresh by (simp add: train_file_sample update_fresh)
    have inv: "train_inv ?t"
      using Cons.prems unfolding t' by (simp add: train_inv_def)
    from Cons.IH [OF inv] show ?thesis
      using True by (simp add: t')
  next
    case False
    let ?t = "train_file resize d f t"
    have inv: "train_inv ?t"
      using Cons.prems train_file_other [OF False, of resize t] by (simp add: train_inv_def)
    from Cons.IH [OF inv] show ?thesis
      using False train_file_other [OF False, of resize t] by simp
  qed
qed

lemma train_inv_start: "train_inv train_start"
  by (simp add: train_inv_def train_start_def)

lemma train_loop_start:
  fixes d :: "(string \<times> 'img option) list" and resize
  defines "t \<equiv> train_loop resize d (sort (listdir d)) train_start"
  shows "images t = map (\<lambda>x. resize (the (imread d x))) (samples d)"
    and "labels t = map int [0..<length (samples d)]"
    and "train_map t = zip (map int [0..<length (samples d)]) (map identity_of (samples d))"
proof -
  have c: "train_inv t
       \<and> images t = images train_start @ map (\<lambda>x. resize (the (imread d x))) (samples d)
       \<and> map snd (train_map t) = map snd (train_map (train_start :: 'img training)) @ map identity_of (samples d)"
    unfolding t_def samples_def by (rule train_loop_char [OF train_inv_start])
  then show i: "images t = map (\<lambda>x. resize (the (imread d x))) (samples d)"
    by (simp add: train_start_def)
  then have n: "length (images t) = length (samples d)" by simp
  from c n show "labels t = map int [0..<length (samples d)]"
    by (simp add: train_inv_def)
  from c n have "map fst (train_map t) = map int [0..<length (samples d)]"
    by (simp add: train_inv_def)
  moreover from c have "map snd (train_map t) = map identity_of (samples d)"
    by (simp add: train_start_def)
  ultimately show "train_map t = zip (map int [0..<length (samples d)]) (map identity_of (samples d))"
    by (metis zip_map_fst_snd)
qed

lemma train_result:
  "fst (train_recognizer resize s) =
     Inr (if samples (known_faces_dir s) = [] then Untrained
          else Trained (zip (map (\<lambda>x. resize (the (imread (known_faces_dir s) x))) (samples (known_faces_dir s)))
                            (map int [0..<length (samples (known_faces_dir s))])),
          zip (map int [0..<length (samples (known_faces_dir s))])
              (map identity_of (samples (known_faces_dir s))))"
  by (simp add: train_recognizer_def Let_def train_loop_start lbph_train_def)

lemma samples_empty: "samples d = [] \<longleftrightarrow> \<not> list_ex (is_sample d) (listdir d)"
  by (auto simp: samples_def filter_empty_conv list_ex_iff)

lemma retrain_result:
  "retrain resize updating s =
     (Returned,
      emit [Log INFO Update_finished, Status (if updating then Face_updated else Registration_completed)]
        ((snd (train_recognizer resize (emit [Log INFO Capture_complete] s)))
           \<lparr>recognizer := fst (projr (fst (train_recognizer resize (emit [Log INFO Capture_complete] s)))),
             label_map := snd (projr (fst (train_recognizer resize (emit [Log INFO Capture_complete] s))))\<rparr>))"
proof -
  obtain res s' where tr: "train_recognizer resize (emit [Log INFO Capture_complete] s) = (res, s')"
    by (cases "train_recognizer resize (emit [Log INFO Capture_complete] s)") auto
  obtain r m where "res = Inr (r, m)"
    using train_result [of resize "emit [Log INFO Capture_complete] s"] tr by simp
  with tr show ?thesis by (simp add: retrain_def)
qed

lemma count_zip:
  "length ks = length vs \<Longrightarrow>
     length (filter (\<lambda>x. snd x = v) (zip ks vs)) = length (filter (\<lambda>x. x = v) vs)"
  by (induction ks vs rule: list_induct2) simp_all

lemma count_map: "length (filter (\<lambda>x. x = v) (map f xs)) = length (filter (\<lambda>x. f x = v) xs)"
  by (induction xs) simp_all

section \<open>Facts about sample file names and shell patterns\<close>

lemma undecimal_snoc: "undecimal (s @ [c]) = 10 * undecimal s + ((of_char c :: nat) - 48)"
  by (simp add: undecimal_def)

lemma undecimal_decimal: "undecimal (decimal n) = n"
proof (induction n rule: decimal.induct)
  case (1 n)
  show ?case
  proof (cases "n < 10")
    case True
    then show ?thesis by (simp add: decimal_small undecimal_def of_char_digit)
  next
    case False
    then have "undecimal (decimal n) = 10 * undecimal (decimal (n div 10)) + (n mod 10)"
      by (simp add: decimal_big undecimal_snoc of_char_digit)
    with "1" False show ?thesis by simp
  qed
qed

lemma undecimal_zeros: "undecimal (replicate k CHR ''0'' @ s) = undecimal s"
proof -
  have "foldl (\<lambda>a c. 10 * a + ((of_char c :: nat) - 48)) 0 (replicate k CHR ''0'') = 0"
    by (induction k) simp_all
  then show ?thesis by (simp add: undecimal_def)
qed

lemma undecimal_fmt03: "undecimal (fmt03 n) = n"
  by (simp add: fmt03_def undecimal_zeros undecimal_decimal)

lemma fmt03_inj: "fmt03 i = fmt03 j \<Longrightarrow> i = j"
  by (metis undecimal_fmt03)

lemma sample_filename_inj: "sample_filename name emp_id i = sample_filename name emp_id j \<Longrightarrow> i = j"
  by (simp add: sample_filename_def fmt03_inj)

lemma translate_literal: "literal p \<Longrightarrow> translate (p @ q) = map Lit p @ translate q"
  by (induction p) (simp_all add: literal_def)

lemma translate_star_jpg:
  "translate ''*.jpg'' = [Star, Lit CHR ''.'', Lit CHR ''j'', Lit CHR ''p'', Lit CHR ''g'']"
  by simp

lemma glob_match_literal: "glob_match (map Lit p @ ts) (p @ r) = glob_match ts r"
  by (induction p) simp_all

lemma glob_match_star: "glob_match ts r \<Longrightarrow> glob_match (Star # ts) (x @ r)"
proof (induction x)
  case Nil
  then show ?case by (cases r) simp_all
next
  case (Cons a x)
  then show ?case by simp
qed

lemma glob_match_jpg:
  "glob_match [Star, Lit CHR ''.'', Lit CHR ''j'', Lit CHR ''p'', Lit CHR ''g''] (x @ ''.jpg'')"
  by (rule glob_match_star) simp

lemma sample_matches:
  assumes "literal name" "literal emp_id"
  shows "glob_match (translate (name @ ''_'' @ emp_id @ ''_*.jpg'')) (sample_filename name emp_id i)"
proof -
  have l: "literal (name @ ''_'' @ emp_id @ ''_'')"
    using assms by (simp add: literal_def)
  have "translate ((name @ ''_'' @ emp_id @ ''_'') @ ''*.jpg'')
          = map Lit (name @ ''_'' @ emp_id @ ''_'') @ translate ''*.jpg''"
    using l by (rule translate_literal)
  moreover have "sample_filename name emp_id i = (name @ ''_'' @ emp_id @ ''_'') @ (fmt03 i @ ''.jpg'')"
    by (simp add: sample_filename_def)
  ultimately show ?thesis
    using glob_match_jpg [of "fmt03 i"]
    by (simp only: glob_match_literal translate_star_jpg append_assoc [symmetric])
       (simp add: glob_match_literal)
qed

lemma sample_hidden:
  "is_hidden (sample_filename name emp_id i) = is_hidden (name @ ''_'' @ emp_id @ ''_*.jpg'')"
  by (cases name) (simp_all add: is_hidden_def sample_filename_def)

lemma glob_samples_grow:
  assumes "listdir d' = listdir d @ map (sample_filename name emp_id) idxs"
      and "literal name" "literal emp_id"
  shows "glob_samples d' name emp_id = glob_samples d name emp_id @ map (sample_filename name emp_id) idxs"
proof -
  let ?pat = "name @ ''_'' @ emp_id @ ''_*.jpg''"
  have m: "filter (glob_match (translate ?pat)) (map (sample_filename name emp_id) idxs)
             = map (sample_filename name emp_id) idxs"
    using sample_matches [OF assms(2,3)] by (simp add: filter_id_conv)
  have h: "\<not> is_hidden ?pat \<Longrightarrow>
             filter (\<lambda>x. \<not> is_hidden x) (map (sample_filename name emp_id) idxs)
               = map (sample_filename name emp_id) idxs"
    by (simp add: filter_id_conv sample_hidden)
  show ?thesis
    unfolding glob_samples_def Let_def assms(1)
    using m h by (cases "is_hidden ?pat") simp_all
qed

section \<open>Facts about a capture session\<close>

lemma retrain_dir: "known_faces_dir (snd (retrain resize updating s)) = known_faces_dir s"
  by (simp add: retrain_result)

lemma capture_loop_writes:
  "known_faces_dir (snd (snd (capture_loop resize name emp_id start target ticks collected s)))
     = AList.updates
         (map (sample_filename name emp_id)
            [start + collected ..< start + collected
                + length (take (nat target - collected) (first_faces ticks))])
         (map (\<lambda>f. Some (resize f)) (take (nat target - collected) (first_faces ticks)))
         (known_faces_dir s)"
proof (induction ticks arbitrary: collected s)
  case Nil
  then show ?case by simp
next
  case (Cons tick ticks)
  show ?case
  proof (cases "int collected < target")
    case False
    then have "nat target - collected = 0" by simp
    with False show ?thesis by simp
  next
    case True
    note lt = True
    show ?thesis
    proof (cases tick)
      case Stop_set
      with lt show ?thesis by simp
    next
      case No_frame
      with lt Cons.IH show ?thesis by simp
    next
      case Detector_raises
      with lt show ?thesis by simp
    next
      case (Faces_seen faces)
      show ?thesis
      proof (cases faces)
        case Nil
        with lt Faces_seen Cons.IH [of collected "emit [Status No_face_detected] s"]
        show ?thesis by simp
      next
        case (Cons face others)
        define k where "k = nat target - (collected + 1)"
        have n: "nat target - collected = Suc k"
          using lt unfolding k_def by simp
        define fs where "fs = take k (first_faces ticks)"
        define s1 where "s1 = emit [Log INFO (Captured_line (collected + 1) target emp_id), Flash,
                        Status (Captured_photos (collected + 1) target)]
                     (imwrite (sample_filename name emp_id (start + collected)) (resize face) s)"
        have d1: "known_faces_dir s1
                    = AList.update (sample_filename name emp_id (start + collected)) (Some (resize face))
                        (known_faces_dir s)"
          by (simp add: s1_def imwrite_def)
        have step: "capture_loop resize name emp_id start target (tick # ticks) collected s
                     = capture_loop resize name emp_id start target ticks (collected + 1) s1"
          using lt Faces_seen Cons by (simp add: s1_def)
        have ff: "take (nat target - collected) (first_faces (tick # ticks)) = face # fs"
          unfolding n fs_def using Faces_seen Cons by simp
        have upt: "[start + collected ..< start + collected + length (face # fs)]
                     = (start + collected) # [start + (collected + 1) ..< start + (collected + 1) + length fs]"
          using upt_rec [of "start + collected" "start + collected + Suc (length fs)"] by simp
        have ih: "known_faces_dir (snd (snd (capture_loop resize name emp_id start target ticks (collected + 1) s1)))
                    = AList.updates
                        (map (sample_filename name emp_id)
                           [start + (collected + 1) ..< start + (collected + 1) + length fs])
                        (map (\<lambda>f. Some (resize f)) fs) (known_faces_dir s1)"
          using Cons.IH [of "collected + 1" s1] unfolding fs_def k_def .
        show ?thesis
          unfolding step ff upt ih d1 by simp
      qed
    qed
  qed
qed

lemma updates_fresh:
  "distinct ks \<Longrightarrow> set ks \<inter> fst ` set al = {} \<Longrightarrow> length ks = length vs
     \<Longrightarrow> AList.updates ks vs al = al @ zip ks vs"
proof (induction ks arbitrary: vs al)
  case Nil
  then show ?case by simp
next
  case (Cons k ks)
  then obtain v vs' where vs: "vs = v # vs'" by (cases vs) auto
  have f: "AList.update k v al = al @ [(k, v)]"
    using Cons.prems by (simp add: update_fresh)
  have "AList.updates ks vs' (al @ [(k, v)]) = (al @ [(k, v)]) @ zip ks vs'"
    using Cons.prems vs by (intro Cons.IH) auto
  then show ?case
    unfolding vs by (simp add: f)
qed

lemma map_of_updates_nth:
  "distinct ks \<Longrightarrow> length ks = length vs \<Longrightarrow> i < length ks
     \<Longrightarrow> map_of (AList.updates ks vs al) (ks ! i) = Some (vs ! i)"
proof (induction ks arbitrary: vs al i)
  case Nil
  then show ?case by simp
next
  case (Cons k ks)
  then obtain v vs' where vs: "vs = v # vs'" by (cases vs) auto
  show ?case
  proof (cases i)
    case 0
    have "map_of (AList.updates ks vs' (AList.update k v al)) k = map_of (AList.update k v al) k"
      using Cons.prems by (intro AList.updates_apply_notin) simp
    then show ?thesis
      unfolding vs 0 by (simp add: AList.update_conv')
  next
    case (Suc j)
    then show ?thesis
      using Cons.prems Cons.IH [of vs' j "AList.update k v al"] unfolding vs by simp
  qed
qed


lemma capture_samples_writes:
  assumes "(case nm of None \<Rightarrow> name_of_id (label_map s) emp_id | Some n \<Rightarrow> Some n) = Some name"
  shows "known_faces_dir (snd (capture_samples resize nm emp_id updating sample_count ticks s))
           = AList.updates
               (map (sample_filename name emp_id)
                  [length (glob_samples (known_faces_dir s) name emp_id)
                     ..< length (glob_samples (known_faces_dir s) name emp_id)
                         + length (captured (case sample_count of None \<Rightarrow> SAMPLES_PER_USER
                                             | Some n \<Rightarrow> if n = 0 then SAMPLES_PER_USER else n) ticks)])
               (map (\<lambda>f. Some (resize f))
                  (captured (case sample_count of None \<Rightarrow> SAMPLES_PER_USER
                             | Some n \<Rightarrow> if n = 0 then SAMPLES_PER_USER else n) ticks))
               (known_faces_dir s)"
proof -
  define target where "target = (case sample_count of None \<Rightarrow> SAMPLES_PER_USER
                                 | Some c \<Rightarrow> if c = 0 then SAMPLES_PER_USER else c)"
  define es where "es = [Log INFO (Starting_capture emp_id target updating),
                          Status (Capturing_in 3), Status (Capturing_in 2), Status (Capturing_in 1),
                          Status Capturing_now]"
  let ?start = "length (glob_samples (known_faces_dir s) name emp_id)"
  obtain out c s2 where loop: "capture_loop resize name emp_id ?start target ticks 0 (emit es s) = (out, c, s2)"
    by (cases "capture_loop resize name emp_id ?start target ticks 0 (emit es s)") auto
  have "known_faces_dir (snd (capture_samples resize nm emp_id updating sample_count ticks s))
          = known_faces_dir s2"
    using assms loop
    unfolding capture_samples_def Let_def target_def [symmetric] es_def [symmetric]
    by (cases out) (simp_all add: retrain_dir)
  also have "\<dots> = known_faces_dir (snd (snd (capture_loop resize name emp_id ?start target ticks 0 (emit es s))))"
    using loop by simp
  also have "\<dots> = AList.updates
         (map (sample_filename name emp_id) [?start ..< ?start + length (captured target ticks)])
         (map (\<lambda>f. Some (resize f)) (captured target ticks)) (known_faces_dir s)"
    using capture_loop_writes [of resize name emp_id ?start target ticks 0 "emit es s"]
    by (simp add: captured_def)
  finally show ?thesis
    unfolding target_def .
qed

section \<open>Facts about the two threads\<close>

lemma train_same_dir:
  "known_faces_dir x = known_faces_dir s
     \<Longrightarrow> fst (train_recognizer resize x) = fst (train_recognizer resize s)"
  by (simp add: train_result)

lemma train_is_Inr:
  "fst (train_recognizer resize s) = Inr (projr (fst (train_recognizer resize s)))"
  by (simp add: train_result)

lemma consistent_start: "consistent_with resize s (both_pending s)"
  by (simp add: consistent_with_def both_pending_def)

lemma retrainer_step_consistent:
  assumes "consistent_with resize s c"
  shows "consistent_with resize s (retrainer_step resize c)
       \<and> stage (retrainer (retrainer_step resize c)) = min 3 (Suc (stage (retrainer c)))
       \<and> pipeline (retrainer_step resize c) = pipeline c"
proof (cases "retrainer c")
  case Retrain_pending
  have d: "known_faces_dir (shared c) = known_faces_dir s"
    using assms by (simp add: consistent_with_def)
  obtain x where x: "train_recognizer resize (shared c)
                       = (Inr (projr (fst (train_recognizer resize s))), x)"
    using train_same_dir [OF d, of resize] train_is_Inr [of resize s]
    by (cases "train_recognizer resize (shared c)") simp
  have f: "known_faces_dir x = known_faces_dir (shared c)"
          "recognizer x = recognizer (shared c)" "label_map x = label_map (shared c)"
    using train_recognizer_fields(4,5,6) [of resize "shared c"] x by simp_all
  show ?thesis
    using assms Retrain_pending x f
    by (cases "projr (fst (train_recognizer resize s))")
       (simp add: consistent_with_def retrainer_step_def)
next
  case (Store_recognizer r m)
  with assms show ?thesis
    by (auto simp: consistent_with_def retrainer_step_def split: prod.splits)
next
  case (Store_label_map m)
  with assms show ?thesis
    by (simp add: consistent_with_def retrainer_step_def)
next
  case Retrain_done
  with assms show ?thesis
    by (simp add: consistent_with_def retrainer_step_def)
next
  case (Retrain_raised e)
  with assms show ?thesis
    by (simp add: consistent_with_def)
qed

lemma pipeline_step_consistent:
  assumes "consistent_with resize s c"
  shows "consistent_with resize s (pipeline_step lbph face c)
       \<and> retrainer (pipeline_step lbph face c) = retrainer c"
  using assms
  by (cases "pipeline c") (simp_all add: consistent_with_def pipeline_step_def)

lemma retrainer_steps:
  assumes "consistent_with resize s c"
  shows "consistent_with resize s (fold (thread_step lbph resize face) (replicate a Retrainer) c)
       \<and> stage (retrainer (fold (thread_step lbph resize face) (replicate a Retrainer) c))
           = min 3 (stage (retrainer c) + a)
       \<and> pipeline (fold (thread_step lbph resize face) (replicate a Retrainer) c) = pipeline c"
  using assms
proof (induction a arbitrary: c)
  case 0
  then show ?case
    by (cases "retrainer c") (simp_all add: consistent_with_def)
next
  case (Suc a)
  note st = retrainer_step_consistent [OF Suc.prems]
  from Suc.IH [of "retrainer_step resize c"] st
  show ?case by (simp add: min_def)
qed

lemma done_stays:
  "pipeline c = Face_done r m
     \<Longrightarrow> pipeline (fold (thread_step lbph resize face) schedule c) = Face_done r m"
proof (induction schedule arbitrary: c)
  case Nil
  then show ?case by simp
next
  case (Cons t schedule)
  have "pipeline (thread_step lbph resize face t c) = Face_done r m"
    using Cons.prems
    by (cases t)
       (auto simp: retrainer_step_def pipeline_step_def split: retrainer.splits prod.splits sum.splits)
  from Cons.IH [OF this] show ?case by simp
qed

section \<open>Classification of the form response\<close>




section \<open>The cooldown gate\<close>

text \<open>
  C1. The clock \<open>time.time()\<close> counts the seconds since 1970, and the table is read
  with 0 for an employee without an entry; for a clock reading beyond 300 seconds this
  is the test the claim states. For a recognised face (confidence below 60) of employee
  \<open>e\<close> at such a reading \<open>now\<close>, the attendance thread is started exactly when the table
  has no entry for \<open>e\<close> or its entry is more than 300 seconds old. When the thread is
  started, the entry has been set to \<open>now\<close> first: the store comes before the thread
  start in the trace. Whatever the state, over rounds of the camera loop whose clock
  readings lie within 300 seconds of each other at most one attendance thread is started
  for \<open>e\<close>.
\<close>

theorem cooldown_gate:
  assumes "face_predict lbph roi s = (label, conf)"
      and "label_get (label_map s) label = (name, e)"
      and "conf < 60"
      and "300 < now"
  shows "(0 < dispatches e s (recognise_face lbph (roi, now) s)
            \<longleftrightarrow> (case last_seen_time s e of None \<Rightarrow> True | Some t \<Rightarrow> now - t > 300))
       \<and> dispatches e s (recognise_face lbph (roi, now) s) \<le> 1
       \<and> (0 < dispatches e s (recognise_face lbph (roi, now) s) \<longrightarrow>
            last_seen_time (recognise_face lbph (roi, now) s) e = Some now
            \<and> take 2 (emitted s (recognise_face lbph (roi, now) s))
                = [Store_last_seen e now, Start_thread (Attendance_submitter name e)])
       \<and> ((\<forall>f \<in> set (concat (map faces_of reads)). \<forall>g \<in> set (concat (map faces_of reads)).
              snd g - snd f \<le> 300)
            \<longrightarrow> dispatches e s (camera_loop lbph reads s) \<le> 1)"
proof -
  have d: "dispatches e s (recognise_face lbph (roi, now) s)
            = (if now - (case last_seen_time s e of None \<Rightarrow> 0 | Some t \<Rightarrow> t) > 300 then 1 else 0)"
    using assms by (simp add: dispatches_recognise_face RECOGNITION_INTERVAL_def)
  have p1: "0 < dispatches e s (recognise_face lbph (roi, now) s)
            \<longleftrightarrow> (case last_seen_time s e of None \<Rightarrow> True | Some t \<Rightarrow> now - t > 300)"
    unfolding d using assms(4) by (simp split: option.splits)
  have p2: "dispatches e s (recognise_face lbph (roi, now) s) \<le> 1"
    unfolding d by simp
  have p3: "0 < dispatches e s (recognise_face lbph (roi, now) s) \<longrightarrow>
            last_seen_time (recognise_face lbph (roi, now) s) e = Some now
            \<and> take 2 (emitted s (recognise_face lbph (roi, now) s))
                = [Store_last_seen e now, Start_thread (Attendance_submitter name e)]"
  proof -
    have lc': "label_get (label_map s) (fst (label, conf)) = (name, e)"
      using assms by simp
    show ?thesis
      using assms
      by (simp add: recognise_face_def dispatches_face_act [OF lc'] face_act_last_seen [OF lc']
          face_act_emitted [OF lc'])
  qed
  have p4: "(\<forall>f \<in> set (concat (map faces_of reads)). \<forall>g \<in> set (concat (map faces_of reads)).
              snd g - snd f \<le> 300)
            \<longrightarrow> dispatches e s (camera_loop lbph reads s) \<le> 1"
    unfolding camera_loop_fold
    using at_most_one_within_window [of "concat (map faces_of reads)" e s lbph]
    by (simp add: RECOGNITION_INTERVAL_def)
  from p1 p2 p3 p4 show ?thesis by blast
qed

theorem cooldown_gate_witness:
  "0 < dispatches ''E001'' desk (recognise_face nearest (10, 1762000000) desk)
   \<and> last_seen_time (recognise_face nearest (10, 1762000000) desk) ''E001'' = Some 1762000000
   \<and> take 2 (emitted desk (recognise_face nearest (10, 1762000000) desk))
        = [Store_last_seen ''E001'' 1762000000, Start_thread (Attendance_submitter ''alice'' ''E001'')]
   \<and> dispatches ''E001'' desk
        (camera_loop nearest [Detected [(10, 1762000000)], Read_failed, Detected [(10, 1762000100), (11, 1762000100)],
                              Detect_failed, Detected [(10, 1762000300)]] desk) \<le> 1"
proof -
  have a: "face_predict nearest 10 desk = (0, 0)"
    by (simp add: desk_def blank_app_def face_predict_def predict_def)
  have b: "label_get (label_map desk) 0 = (''alice'', ''E001'')"
    by (simp add: desk_def blank_app_def label_get_def)
  have c: "(0::real) < 60" by simp
  have n: "(300::real) < 1762000000" by simp
  have t: "last_seen_time desk ''E001'' = None"
    by (simp add: desk_def blank_app_def)
  show ?thesis
    using cooldown_gate [OF a b c n, of
        "[Detected [(10, 1762000000)], Read_failed, Detected [(10, 1762000100), (11, 1762000100)],
          Detect_failed, Detected [(10, 1762000300)]]"] t
    by simp
qed

section \<open>The outcome of a dispatch and the cooldown table\<close>

text \<open>
  C5. Neither attendance worker writes the cooldown table, whatever the outcome of the
  post: when a recognised face of employee \<open>e\<close> at time \<open>now\<close> has started the dispatch,
  the entry of \<open>e\<close> is \<open>now\<close> after both workers have run. On a response and on every
  exception of the requests library the submitting worker returns without an exception,
  and on a response other than 200 and 302, on a timeout and on a connection error it
  leaves a warning popup.
\<close>

theorem dispatch_outcome_leaves_cooldown:
  "last_seen_time (handle_successful_recognition has_sound name e s) = last_seen_time s
   \<and> last_seen_time (snd (submit_to_google_form stamp outcome name e s)) = last_seen_time s
   \<and> (0 < dispatches e s (recognise_face lbph (roi, now) s) \<longrightarrow>
        last_seen_time (snd (submit_to_google_form stamp outcome name e
           (handle_successful_recognition has_sound name e (recognise_face lbph (roi, now) s)))) e
          = Some now)
   \<and> (outcome \<noteq> Other_exception \<longrightarrow>
        fst (submit_to_google_form stamp outcome name e s) = None)
   \<and> (outcome \<noteq> Other_exception \<and> outcome \<noteq> Request_exception
        \<and> (\<forall>body. outcome \<noteq> Response 200 body \<and> outcome \<noteq> Response 302 body) \<longrightarrow>
        reported_warning s (snd (submit_to_google_form stamp outcome name e s)))"
proof -
  have a: "0 < dispatches e s (recognise_face lbph (roi, now) s) \<longrightarrow>
        last_seen_time (recognise_face lbph (roi, now) s) e = Some now"
    by (simp add: dispatches_recognise_face last_seen_recognise_face)
  have b: "outcome \<noteq> Other_exception \<longrightarrow> fst (submit_to_google_form stamp outcome name e s) = None"
    by (cases outcome) (simp_all add: submit_to_google_form_def Let_def)
  have c: "outcome \<noteq> Other_exception \<and> outcome \<noteq> Request_exception
        \<and> (\<forall>body. outcome \<noteq> Response 200 body \<and> outcome \<noteq> Response 302 body) \<longrightarrow>
        reported_warning s (snd (submit_to_google_form stamp outcome name e s))"
    by (cases outcome) (simp_all add: submit_to_google_form_def Let_def reported_warning_def)
  show ?thesis
    using a b c by (simp add: submit_last_seen handle_last_seen)
qed

theorem dispatch_outcome_witness:
  "last_seen_time (snd (submit_to_google_form (''03/11/2026'', ''09:00:00'') (Response 500 ''Internal Server Error'') ''alice'' ''E001''
           (handle_successful_recognition True ''alice'' ''E001'' (recognise_face nearest (10, 1762000000) desk)))) ''E001''
          = Some 1762000000
   \<and> fst (submit_to_google_form (''03/11/2026'', ''09:00:00'') (Response 500 ''Internal Server Error'') ''alice'' ''E001'' desk) = None
   \<and> reported_warning desk (snd (submit_to_google_form (''03/11/2026'', ''09:00:00'') (Response 500 ''Internal Server Error'') ''alice'' ''E001'' desk))"
proof -
  have d: "0 < dispatches ''E001'' desk (recognise_face nearest (10, 1762000000) desk)"
    by (simp add: dispatches_recognise_face desk_def blank_app_def face_predict_def predict_def
        label_get_def RECOGNITION_INTERVAL_def)
  show ?thesis
    using dispatch_outcome_leaves_cooldown [of True "''alice''" "''E001''" desk
        "(''03/11/2026'', ''09:00:00'')" "Response 500 ''Internal Server Error''" nearest 10 1762000000] d
    by simp
qed

section \<open>A capture that cannot resolve the name\<close>

text \<open>
  C10. A capture started without a name for an employee id that no entry of the label map
  carries logs the error, shows the error popup and returns: nothing else is emitted (no
  countdown), and the sample directory, the recogniser and the label map are as before.
\<close>

theorem capture_unresolved_name_aborts:
  assumes "\<forall>x \<in> set (label_map s). snd (snd x) \<noteq> emp_id"
  shows "capture_samples resize None emp_id updating sample_count ticks s
           = (Returned, emit [Log ERROR No_existing_face_line, Popup No_existing_face] s)
         \<and> known_faces_dir (snd (capture_samples resize None emp_id updating sample_count ticks s))
             = known_faces_dir s
         \<and> recognizer (snd (capture_samples resize None emp_id updating sample_count ticks s))
             = recognizer s
         \<and> label_map (snd (capture_samples resize None emp_id updating sample_count ticks s))
             = label_map s"
proof -
  from assms have "name_of_id (label_map s) emp_id = None"
    by (simp add: name_of_id_None)
  then show ?thesis
    by (simp add: capture_samples_def)
qed

theorem capture_unresolved_name_witness:
  "capture_samples id None ''E999'' True (Some 5) [Faces_seen [7]] desk
     = (Returned, emit [Log ERROR No_existing_face_line, Popup No_existing_face] desk)
   \<and> known_faces_dir (snd (capture_samples id None ''E999'' True (Some 5) [Faces_seen [7]] desk))
       = desk_dir"
  using capture_unresolved_name_aborts [of desk "''E999''" id True "Some 5" "[Faces_seen [7]]"]
  by (simp add: desk_def blank_app_def)

section \<open>Issuing a one-time code\<close>

text \<open>
  C8. For every number \<open>random.randint(100000, 999999)\<close> can return, the code is a string
  of six decimal digits, and different numbers give different codes, so the codes are
  distributed as the numbers drawn are. Issuing stores the code and the name under the
  employee id, in place of what was stored there.
\<close>

theorem issue_otp_six_digits:
  assumes "100000 \<le> drawn" and "drawn \<le> 999999"
  shows "length (generate_otp drawn) = 6
       \<and> list_all is_digit (generate_otp drawn)
       \<and> (\<forall>other. 100000 \<le> other \<and> other \<le> 999999 \<and> generate_otp other = generate_otp drawn
             \<longrightarrow> other = drawn)
       \<and> otp_storage (send_otp_flow drawn emp_id email name s)
           = (otp_storage s)(emp_id \<mapsto> generate_otp drawn)
       \<and> pending_names (send_otp_flow drawn emp_id email name s)
           = (pending_names s)(emp_id \<mapsto> name)"
proof -
  have g: "generate_otp drawn = decimal (nat drawn)"
    using assms by (simp add: generate_otp_decimal)
  have "10 ^ 5 \<le> nat drawn" "nat drawn < 10 ^ Suc 5"
    using assms by simp_all
  then have len: "length (decimal (nat drawn)) = Suc 5" by (rule length_decimal)
  have inj: "\<forall>other. 100000 \<le> other \<and> other \<le> 999999 \<and> generate_otp other = generate_otp drawn
             \<longrightarrow> other = drawn"
  proof (intro allI impI)
    fix other
    assume o: "100000 \<le> other \<and> other \<le> 999999 \<and> generate_otp other = generate_otp drawn"
    then have "0 \<le> other" by simp
    then have "generate_otp other = decimal (nat other)"
      by (rule generate_otp_decimal)
    with o g have "decimal (nat other) = decimal (nat drawn)"
      by simp
    then have "nat other = nat drawn" by (rule decimal_inj)
    with o assms show "other = drawn" by simp
  qed
  show ?thesis
    using len inj by (simp add: g decimal_digits send_otp_flow_def Let_def)
qed

theorem issue_otp_witness:
  "length (generate_otp 483920) = 6
   \<and> list_all is_digit (generate_otp 483920)
   \<and> otp_storage (send_otp_flow 483920 ''E001'' ''alice@example.org'' (Some ''alice'')
         (send_otp_flow 111111 ''E001'' ''alice@example.org'' None desk)) ''E001''
       = Some ''483920''
   \<and> pending_names (send_otp_flow 483920 ''E001'' ''alice@example.org'' (Some ''alice'')
         (send_otp_flow 111111 ''E001'' ''alice@example.org'' None desk)) ''E001''
       = Some (Some ''alice'')"
proof -
  have a: "(100000::int) \<le> 483920" and b: "(483920::int) \<le> 999999" by simp_all
  have c: "generate_otp 483920 = ''483920''"
    by (simp add: generate_otp_def py_str_def decimal_eval digit_char_eval)
  show ?thesis
    using issue_otp_six_digits [OF a b, of "''E001''" "''alice@example.org''" "Some ''alice''"
        "send_otp_flow 111111 ''E001'' ''alice@example.org'' None desk"] c
    by simp
qed

section \<open>Verifying a one-time code\<close>

text \<open>
  C7 as stated fails: the text of the input field is stripped before the comparison, so a
  submission with a trailing blank, which is not the stored code, is accepted.
\<close>

theorem otp_padded_code_counterexample:
  "otp_storage (send_otp_flow 123456 ''E001'' ''alice@example.org'' (Some ''alice'') desk) ''E001''
      = Some ''123456''
   \<and> verified (send_otp_flow 123456 ''E001'' ''alice@example.org'' (Some ''alice'') desk)
        (otp_verify ''E001'' ''123456 '' (send_otp_flow 123456 ''E001'' ''alice@example.org'' (Some ''alice'') desk))
   \<and> ''123456 '' \<noteq> ''123456''"
  by (simp add: verified_iff send_otp_flow_def Let_def generate_otp_def py_str_def decimal_eval
      digit_char_eval strip_def is_space_def)

text \<open>
  C7, amended. A verification succeeds exactly when the submitted text, with leading and
  trailing whitespace removed, equals the code stored for the employee id. Succeeding or
  not, it leaves the stored codes and names as they are, so it can be repeated without
  limit. A reissue overwrites the stored code with the new one. After any run of the
  application's activities that issues no code for the id (camera rounds, submissions,
  captures, verifications, codes for other ids, with whatever clock readings), the code
  of the last issue or reissue, and no other text, is the one accepted: there is no
  expiry, and a reissue leaves nothing of the code before it.
\<close>

theorem otp_verify_stripped_match:
  fixes s :: "'img app" and lbph resize evs drawn old e email name
  defines "issued \<equiv> run lbph resize evs (send_otp_flow drawn e email name s)"
      and "reissued \<equiv> run lbph resize evs (otp_resend drawn e email (send_otp_flow old e email name s))"
  shows "(verified s (otp_verify e text s) \<longleftrightarrow> Some (strip text) = otp_storage s e)
       \<and> otp_storage (otp_verify e text s) = otp_storage s
       \<and> pending_names (otp_verify e text s) = pending_names s
       \<and> otp_storage (otp_resend drawn e email s) = (otp_storage s)(e \<mapsto> generate_otp drawn)
       \<and> (list_all (\<lambda>ev. \<not> issues e ev) evs \<longrightarrow>
            (verified issued (otp_verify e text issued) \<longleftrightarrow> strip text = generate_otp drawn)
            \<and> (verified reissued (otp_verify e text reissued) \<longleftrightarrow> strip text = generate_otp drawn))"
proof -
  have i: "list_all (\<lambda>ev. \<not> issues e ev) evs \<Longrightarrow> otp_storage issued e = Some (generate_otp drawn)"
    unfolding issued_def by (simp add: run_otp send_otp_flow_def Let_def)
  have r: "list_all (\<lambda>ev. \<not> issues e ev) evs \<Longrightarrow> otp_storage reissued e = Some (generate_otp drawn)"
    unfolding reissued_def by (simp add: run_otp otp_resend_def Let_def)
  have o: "otp_storage (otp_resend drawn e email s) = (otp_storage s)(e \<mapsto> generate_otp drawn)"
    by (simp add: otp_resend_def Let_def)
  show ?thesis
    using i r o by (auto simp: verified_iff)
qed

theorem otp_verify_witness:
  "verified (run nearest id [Camera (Detected [(10, 1762000000)]), Verify_otp ''E001'' ''000000'',
                             Submit (''03/11/2026'', ''09:00:00'') Timeout ''alice'' ''E001'']
              (send_otp_flow 123456 ''E001'' ''alice@example.org'' (Some ''alice'') desk))
     (otp_verify ''E001'' '' 123456''
        (run nearest id [Camera (Detected [(10, 1762000000)]), Verify_otp ''E001'' ''000000'',
                         Submit (''03/11/2026'', ''09:00:00'') Timeout ''alice'' ''E001'']
           (send_otp_flow 123456 ''E001'' ''alice@example.org'' (Some ''alice'') desk)))
   \<and> \<not> verified (run nearest id [] (otp_resend 654321 ''E001'' ''alice@example.org''
                      (send_otp_flow 123456 ''E001'' ''alice@example.org'' (Some ''alice'') desk)))
         (otp_verify ''E001'' ''123456''
            (run nearest id [] (otp_resend 654321 ''E001'' ''alice@example.org''
               (send_otp_flow 123456 ''E001'' ''alice@example.org'' (Some ''alice'') desk))))"
proof -
  have c: "generate_otp 123456 = ''123456''" "generate_otp 654321 = ''654321''"
    by (simp_all add: generate_otp_def py_str_def decimal_eval digit_char_eval)
  have st: "strip '' 123456'' = ''123456''" "strip ''123456'' = ''123456''"
    by (simp_all add: strip_def is_space_def)
  show ?thesis
    using otp_verify_stripped_match [of desk "''E001''" "'' 123456''" 123456 "''alice@example.org''"
        "[Camera (Detected [(10, 1762000000)]), Verify_otp ''E001'' ''000000'',
          Submit (''03/11/2026'', ''09:00:00'') Timeout ''alice'' ''E001'']"
        nearest id "Some ''alice''" 654321]
      otp_verify_stripped_match [of desk "''E001''" "''123456''" 654321 "''alice@example.org''" "[]"
        nearest id "Some ''alice''" 123456]
      c st
    by simp
qed

section \<open>Training on no samples\<close>

text \<open>
  C4. Over a directory none of whose files training takes, \<open>_train_recognizer\<close> returns a
  never-trained recogniser and an empty label map without raising (the call of
  \<open>train\<close>, which raises on an empty set, is skipped), and so does the retraining step at
  the end of a capture. With a never-trained recogniser every face gets label -1 and
  confidence 1000 from the handler around \<open>predict\<close> and is drawn as unknown, with no
  dispatch and no change of state; the look-up of any label in the empty map gives
  \<open>("unknown", "")\<close>.
\<close>

theorem untrained_reports_unknown:
  assumes "\<not> list_ex (is_sample (known_faces_dir s)) (listdir (known_faces_dir s))"
  shows "fst (train_recognizer resize s) = Inr (Untrained, [])
       \<and> fst (retrain resize updating s) = Returned
       \<and> recognizer (snd (retrain resize updating s)) = Untrained
       \<and> label_map (snd (retrain resize updating s)) = []
       \<and> (recognizer s' = Untrained \<longrightarrow>
            face_predict lbph roi s' = (- 1, 1000)
            \<and> recognise_face lbph (roi, now) s' = emit [Draw_unknown] s')
       \<and> label_get [] label = (''unknown'', [])"
proof -
  have e: "samples (known_faces_dir s) = []"
    using assms by (simp add: samples_empty)
  have a: "fst (train_recognizer resize s) = Inr (Untrained, [])"
    by (simp add: train_result e)
  have b: "fst (train_recognizer resize (emit [Log INFO Capture_complete] s)) = Inr (Untrained, [])"
    by (simp add: train_result e)
  have c: "recognizer s' = Untrained \<longrightarrow>
            face_predict lbph roi s' = (- 1, 1000)
            \<and> recognise_face lbph (roi, now) s' = emit [Draw_unknown] s'"
    by (simp add: face_predict_def predict_def recognise_face_def face_act_def Let_def split_def)
  show ?thesis
    using a c by (simp add: retrain_result b label_get_def)
qed

theorem untrained_reports_unknown_witness:
  "fst (train_recognizer id (blank_app bare_dir)) = Inr (Untrained, [])
   \<and> recognise_face nearest (7, 1762000000) (blank_app bare_dir)
      = emit [Draw_unknown] (blank_app bare_dir)"
proof -
  have a: "\<not> list_ex (is_sample (known_faces_dir (blank_app bare_dir)))
                      (listdir (known_faces_dir (blank_app bare_dir)))"
    unfolding blank_app_def by (simp only: app.simps) code_simp
  have c: "recognizer (blank_app bare_dir) = Untrained"
    by (simp add: blank_app_def)
  show ?thesis
    using untrained_reports_unknown [OF a, where resize = id and s' = "blank_app bare_dir"
        and lbph = nearest and roi = 7 and now = 1762000000] c
    by simp
qed

section \<open>Labels of a training run\<close>

text \<open>
  C9. Training gives every file it takes a label of its own, 0 to N-1 in the order of the
  sorted file names: the label map is the list of these labels paired with the identity
  (lower-cased name, upper-cased employee id) read off each file name, its keys are
  distinct, its size is the number of training images, and an identity occupies as many
  labels as it has files. The file names are those on which \<open>upper\<close> is \<open>str.upper()\<close>:
  without micro sign and y with diaeresis.
\<close>

theorem train_one_label_per_file:
  fixes s :: "'img app" and resize
  defines "files \<equiv> samples (known_faces_dir s)"
      and "m \<equiv> snd (projr (fst (train_recognizer resize s)))"
  assumes within: "list_all capitals_within files"
  shows "fst (train_recognizer resize s) =
           Inr (if files = [] then Untrained
                else Trained (zip (map (\<lambda>x. resize (the (imread (known_faces_dir s) x))) files)
                                  (map int [0..<length files])), m)
       \<and> m = zip (map int [0..<length files]) (map identity_of files)
       \<and> length m = length files
       \<and> distinct (map fst m)
       \<and> (\<forall>i < length files. map_of m (int i) = Some (identity_of (files ! i)))
       \<and> length (filter (\<lambda>x. snd x = ident) m) = length (filter (\<lambda>x. identity_of x = ident) files)"
proof -
  have m: "m = zip (map int [0..<length files]) (map identity_of files)"
    unfolding m_def files_def by (simp add: train_result)
  have d: "distinct (map fst m)"
    unfolding m by (simp add: distinct_map inj_on_def)
  have l: "\<forall>i < length files. map_of m (int i) = Some (identity_of (files ! i))"
  proof (intro allI impI)
    fix i assume i: "i < length files"
    then have "(int i, identity_of (files ! i)) \<in> set m"
      unfolding m by (auto simp: set_zip intro!: exI [of _ i])
    with d show "map_of m (int i) = Some (identity_of (files ! i))"
      by simp
  qed
  have c: "length (filter (\<lambda>x. snd x = ident) m) = length (filter (\<lambda>x. identity_of x = ident) files)"
    unfolding m
    using count_zip [of "map int [0..<length files]" "map identity_of files" ident]
      count_map [of ident identity_of files]
    by simp
  have f: "fst (train_recognizer resize s) =
           Inr (if files = [] then Untrained
                else Trained (zip (map (\<lambda>x. resize (the (imread (known_faces_dir s) x))) files)
                                  (map int [0..<length files])), m)"
    unfolding m files_def by (simp add: train_result)
  from f m d l c show ?thesis by simp
qed

theorem train_one_label_per_file_witness:
  "fst (train_recognizer id (blank_app office_dir)) =
     Inr (Trained [(30, 0), (10, 1), (11, 2), (20, 3)],
          [(0, ''carol'', ''E003''), (1, ''alice'', ''E001''), (2, ''alice'', ''E001''),
           (3, ''bob'', ''E002'')])
   \<and> length (filter (\<lambda>x. snd x = (''alice'', ''E001''))
               (snd (projr (fst (train_recognizer id (blank_app office_dir)))))) = 2
   \<and> snd (projr (fst (train_recognizer id (blank_app abroad_dir))))
       = [(0, ''jos'' @ [CHR 0xE9], [CHR 0xC9] @ ''7''),
          (1, ''stra'' @ [CHR 0xDF] @ ''e'', ''SS1'')]"
proof -
  have w: "list_all capitals_within (samples office_dir)"
    by code_simp
  have a: "length (samples office_dir) = 4"
    by code_simp
  have b: "map identity_of (samples office_dir) =
             [(''carol'', ''E003''), (''alice'', ''E001''), (''alice'', ''E001''), (''bob'', ''E002'')]"
    by code_simp
  have c: "map (\<lambda>x. the (imread office_dir x)) (samples office_dir) = [30, 10, 11, 20]"
    by code_simp
  have e: "length (filter (\<lambda>x. identity_of x = (''alice'', ''E001'')) (samples office_dir)) = 2"
    by code_simp
  have n: "samples office_dir \<noteq> []"
    using a by auto
  have u: "map int [0..<4] = [0, 1, 2, 3]"
    by (simp add: upt_rec)
  have d: "known_faces_dir (blank_app office_dir) = office_dir"
    by (simp add: blank_app_def)
  note t = train_one_label_per_file [of "blank_app office_dir" id "(''alice'', ''E001'')",
      unfolded d, OF w]
  have m: "snd (projr (fst (train_recognizer id (blank_app office_dir))))
             = [(0, ''carol'', ''E003''), (1, ''alice'', ''E001''), (2, ''alice'', ''E001''),
                (3, ''bob'', ''E002'')]"
    using t [THEN conjunct2, THEN conjunct1] by (simp add: a b u)
  have f: "fst (train_recognizer id (blank_app office_dir)) =
     Inr (Trained [(30, 0), (10, 1), (11, 2), (20, 3)],
          [(0, ''carol'', ''E003''), (1, ''alice'', ''E001''), (2, ''alice'', ''E001''),
           (3, ''bob'', ''E002'')])"
    using t [THEN conjunct1, unfolded m] n by (simp add: a c u)
  have k: "length (filter (\<lambda>x. snd x = (''alice'', ''E001''))
               (snd (projr (fst (train_recognizer id (blank_app office_dir)))))) = 2"
    using t [THEN conjunct2, THEN conjunct2, THEN conjunct2, THEN conjunct2, THEN conjunct2]
    by (simp only: e)
  have w': "list_all capitals_within (samples abroad_dir)"
    by code_simp
  have a': "length (samples abroad_dir) = 2"
    by code_simp
  have b': "map identity_of (samples abroad_dir) =
             [(''jos'' @ [CHR 0xE9], [CHR 0xC9] @ ''7''), (''stra'' @ [CHR 0xDF] @ ''e'', ''SS1'')]"
    by code_simp
  have u': "map int [0..<2] = [0, 1]"
    by (simp add: upt_rec)
  have d': "known_faces_dir (blank_app abroad_dir) = abroad_dir"
    by (simp add: blank_app_def)
  note t' = train_one_label_per_file [of "blank_app abroad_dir" id "([], [])", unfolded d', OF w']
  have m': "snd (projr (fst (train_recognizer id (blank_app abroad_dir))))
       = [(0, ''jos'' @ [CHR 0xE9], [CHR 0xC9] @ ''7''),
          (1, ''stra'' @ [CHR 0xDF] @ ''e'', ''SS1'')]"
    using t' [THEN conjunct2, THEN conjunct1] by (simp add: a' b' u')
  from f k m' show ?thesis by simp
qed

section \<open>Numbering of the samples of a session\<close>

text \<open>
  C3 as stated fails: the numbering follows the file names of one name and id, not the
  employee id. Employee E001 has one sample, under the name alice; a registration of the
  same id under the name alicia writes its first sample with number 000 again, not 001.
\<close>

theorem renamed_employee_counterexample:
  "map identity_of (samples (known_faces_dir desk)) = [(''alice'', ''E001'')]
   \<and> listdir (known_faces_dir (snd (capture_samples id (Some ''alicia'') ''E001'' False None
                                       [Faces_seen [7]] desk)))
       = [''alice_E001_000.jpg'', ''alicia_E001_000.jpg'']
   \<and> sample_filename ''alicia'' ''E001'' 0 = ''alicia_E001_000.jpg''
   \<and> sample_filename ''alicia'' ''E001'' 1 = ''alicia_E001_001.jpg''"
  by code_simp

text \<open>
  C3, amended. A session writes the faces it captures, in order, under the names
  \<open>{name}_{emp_id}_{c+i:03d}.jpg\<close> for i = 0, 1, ..., where \<open>c\<close> is the number of files
  that match \<open>{name}_{emp_id}_*.jpg\<close> when the session starts: the directory after the
  session is the one before it with these writes made. The names are pairwise
  different, each file holds its own capture, and every file under another name is as
  it was. When every file of the directory with a name of this form is numbered below
  \<open>c\<close>, the session's files are new: the directory is the old one with them added at
  its end; and for a name and an id with no star, question mark or opening bracket the
  next session finds the same: it counts \<open>c\<close> plus the number captured, and every file of
  this form is numbered below that.
\<close>

theorem capture_continues_numbering:
  fixes s :: "'img app" and resize nm name emp_id updating sample_count ticks
  defines "d \<equiv> known_faces_dir s"
      and "c \<equiv> length (glob_samples (known_faces_dir s) name emp_id)"
      and "faces \<equiv> captured (case sample_count of None \<Rightarrow> SAMPLES_PER_USER
                              | Some n \<Rightarrow> if n = 0 then SAMPLES_PER_USER else n) ticks"
      and "d' \<equiv> known_faces_dir (snd (capture_samples resize nm emp_id updating sample_count ticks s))"
  assumes resolved: "(case nm of None \<Rightarrow> name_of_id (label_map s) emp_id | Some n \<Rightarrow> Some n) = Some name"
  shows "d' = AList.updates (map (sample_filename name emp_id) [c ..< c + length faces])
                (map (\<lambda>f. Some (resize f)) faces) d
       \<and> distinct (map (sample_filename name emp_id) [c ..< c + length faces])
       \<and> (\<forall>i < length faces. imread d' (sample_filename name emp_id (c + i)) = Some (resize (faces ! i)))
       \<and> (\<forall>f. f \<notin> sample_filename name emp_id ` {c ..< c + length faces} \<longrightarrow> map_of d' f = map_of d f)
       \<and> ((\<forall>i. sample_filename name emp_id i \<in> set (listdir d) \<longrightarrow> i < c) \<longrightarrow>
            d' = d @ zip (map (sample_filename name emp_id) [c ..< c + length faces])
                         (map (\<lambda>f. Some (resize f)) faces)
            \<and> (literal name \<and> literal emp_id \<longrightarrow>
                 length (glob_samples d' name emp_id) = c + length faces
                 \<and> (\<forall>i. sample_filename name emp_id i \<in> set (listdir d') \<longrightarrow> i < c + length faces)))"
proof -
  let ?ks = "map (sample_filename name emp_id) [c ..< c + length faces]"
  let ?vs = "map (\<lambda>f. Some (resize f)) faces"
  have w: "d' = AList.updates ?ks ?vs d"
    unfolding d'_def d_def c_def faces_def by (rule capture_samples_writes [OF resolved])
  have inj: "inj_on (sample_filename name emp_id) A" for A
    by (rule inj_onI) (rule sample_filename_inj)
  have dist: "distinct ?ks"
    by (simp add: distinct_map inj)
  have len: "length ?ks = length ?vs"
    by simp
  have own: "\<forall>i < length faces. imread d' (sample_filename name emp_id (c + i)) = Some (resize (faces ! i))"
  proof (intro allI impI)
    fix i assume i: "i < length faces"
    then have "map_of (AList.updates ?ks ?vs d) (?ks ! i) = Some (?vs ! i)"
      using map_of_updates_nth [OF dist len, of i d] by simp
    then show "imread d' (sample_filename name emp_id (c + i)) = Some (resize (faces ! i))"
      unfolding w using i by (simp add: imread_def)
  qed
  have others: "\<forall>f. f \<notin> sample_filename name emp_id ` {c ..< c + length faces} \<longrightarrow> map_of d' f = map_of d f"
    unfolding w by simp
  have cont: "(\<forall>i. sample_filename name emp_id i \<in> set (listdir d) \<longrightarrow> i < c) \<longrightarrow>
            d' = d @ zip ?ks ?vs
            \<and> (literal name \<and> literal emp_id \<longrightarrow>
                 length (glob_samples d' name emp_id) = c + length faces
                 \<and> (\<forall>i. sample_filename name emp_id i \<in> set (listdir d') \<longrightarrow> i < c + length faces))"
  proof (intro impI)
    assume below: "\<forall>i. sample_filename name emp_id i \<in> set (listdir d) \<longrightarrow> i < c"
    have new: "set ?ks \<inter> fst ` set d = {}"
    proof (rule ccontr)
      assume "set ?ks \<inter> fst ` set d \<noteq> {}"
      then obtain x where x: "x \<in> set ?ks" "x \<in> fst ` set d" by blast
      then obtain j where j: "c \<le> j" "x = sample_filename name emp_id j" by auto
      with x(2) have "sample_filename name emp_id j \<in> set (listdir d)"
        by (simp add: listdir_def)
      with below j(1) show False by fastforce
    qed
    have app: "d' = d @ zip ?ks ?vs"
      unfolding w using dist new len by (rule updates_fresh)
    have l: "listdir d' = listdir d @ ?ks"
      unfolding app by (simp add: listdir_def)
    have lit: "literal name \<and> literal emp_id \<longrightarrow>
                 length (glob_samples d' name emp_id) = c + length faces
                 \<and> (\<forall>i. sample_filename name emp_id i \<in> set (listdir d') \<longrightarrow> i < c + length faces)"
    proof (intro impI conjI allI)
      assume a: "literal name \<and> literal emp_id"
      then have "glob_samples d' name emp_id = glob_samples d name emp_id @ ?ks"
        using glob_samples_grow [OF l] by simp
      then show "length (glob_samples d' name emp_id) = c + length faces"
        unfolding c_def d_def by simp
    next
      fix i
      assume "sample_filename name emp_id i \<in> set (listdir d')"
      then consider "sample_filename name emp_id i \<in> set (listdir d)"
        | "sample_filename name emp_id i \<in> sample_filename name emp_id ` {c..<c + length faces}"
        unfolding l by auto
      then show "i < c + length faces"
      proof cases
        case 1
        with below show ?thesis by fastforce
      next
        case 2
        then obtain j where "j \<in> {c..<c + length faces}"
            "sample_filename name emp_id i = sample_filename name emp_id j"
          by blast
        then show ?thesis using sample_filename_inj [of name emp_id i j] by simp
      qed
    qed
    from app lit show "d' = d @ zip ?ks ?vs
            \<and> (literal name \<and> literal emp_id \<longrightarrow>
                 length (glob_samples d' name emp_id) = c + length faces
                 \<and> (\<forall>i. sample_filename name emp_id i \<in> set (listdir d') \<longrightarrow> i < c + length faces))"
      by (rule conjI)
  qed
  from w dist own others cont show ?thesis by blast
qed


theorem capture_continues_numbering_witness:
  "known_faces_dir (snd (capture_samples id None ''E001'' True (Some 5)
       [No_frame, Faces_seen [], Faces_seen [20, 99], Faces_seen [21], Faces_seen [22],
        Faces_seen [23], Faces_seen [24], Faces_seen [25]] ten))
     = ten_dir @ [(''alice_E001_010.jpg'', Some 20), (''alice_E001_011.jpg'', Some 21),
                  (''alice_E001_012.jpg'', Some 22), (''alice_E001_013.jpg'', Some 23),
                  (''alice_E001_014.jpg'', Some 24)]
   \<and> length (glob_samples
        (known_faces_dir (snd (capture_samples id None ''E001'' True (Some 5)
           [No_frame, Faces_seen [], Faces_seen [20, 99], Faces_seen [21], Faces_seen [22],
            Faces_seen [23], Faces_seen [24], Faces_seen [25]] ten)))
        ''alice'' ''E001'') = 15"
proof -
  have d: "known_faces_dir ten = ten_dir"
    by (simp add: ten_def blank_app_def)
  have names: "listdir ten_dir = map (sample_filename ''alice'' ''E001'') [0..<10]"
    by code_simp
  have start: "length (glob_samples ten_dir ''alice'' ''E001'') = 10"
    by code_simp
  have resolved: "(case None of None \<Rightarrow> name_of_id (label_map ten) ''E001'' | Some n \<Rightarrow> Some n)
                    = Some ''alice''"
    by code_simp
  have lit: "literal ''alice''" "literal ''E001''"
    by (simp_all add: literal_def)
  have below: "\<forall>i. sample_filename ''alice'' ''E001'' i \<in> set (listdir ten_dir) \<longrightarrow> i < 10"
  proof (intro allI impI)
    fix i
    assume "sample_filename ''alice'' ''E001'' i \<in> set (listdir ten_dir)"
    then obtain j where "j < 10" "sample_filename ''alice'' ''E001'' i = sample_filename ''alice'' ''E001'' j"
      unfolding names by auto
    then show "i < 10" using sample_filename_inj [of "''alice''" "''E001''" i j] by simp
  qed
  have faces: "captured (case Some 5 of None \<Rightarrow> SAMPLES_PER_USER
                         | Some n \<Rightarrow> if n = 0 then SAMPLES_PER_USER else n)
                 [No_frame, Faces_seen [], Faces_seen [20, 99], Faces_seen [21], Faces_seen [22],
                  Faces_seen [23], Faces_seen [24], Faces_seen [25 :: nat]]
               = [20, 21, 22, 23, 24]"
    by code_simp
  have files: "zip (map (sample_filename ''alice'' ''E001'') [10..<10 + length [20, 21, 22, 23, 24 :: nat]])
                   (map (\<lambda>f. Some (id f)) [20, 21, 22, 23, 24 :: nat])
               = [(''alice_E001_010.jpg'', Some 20), (''alice_E001_011.jpg'', Some 21),
                  (''alice_E001_012.jpg'', Some 22), (''alice_E001_013.jpg'', Some 23),
                  (''alice_E001_014.jpg'', Some 24)]"
    by code_simp
  note t = capture_continues_numbering [OF resolved, where resize = id and updating = True
      and sample_count = "Some 5"
      and ticks = "[No_frame, Faces_seen [], Faces_seen [20, 99], Faces_seen [21], Faces_seen [22],
        Faces_seen [23], Faces_seen [24], Faces_seen [25]]", unfolded d start faces files]
  note r = t [THEN conjunct2, THEN conjunct2, THEN conjunct2, THEN conjunct2, THEN mp, OF below]
  note n = r [THEN conjunct2, THEN mp, OF conjI [OF lit], THEN conjunct1]
  have "10 + length [20, 21, 22, 23, 24 :: nat] = 15"
    by simp
  with n r [THEN conjunct1] show ?thesis
    by (intro conjI) (simp_all only:)
qed


text \<open>
  Outside the amended claim: a name with an opening bracket is read by \<open>glob\<close> as a
  bracket expression, which the files of that name do not match; the count stays 0 and a
  second session writes number 000 over the first.
\<close>

lemma bracket_name_overwrites:
  "known_faces_dir (snd (capture_samples id (Some ''[a]'') ''E1'' False None [Faces_seen [2]]
                           (blank_app [(''[a]_E1_000.jpg'', Some (1::nat))])))
     = [(''[a]_E1_000.jpg'', Some 2)]"
  by code_simp

section \<open>The recogniser and the label map under retraining\<close>

text \<open>
  C2 as stated fails: the two stores of the retraining step and the two reads of the
  camera thread are separate steps. With both reads between the two stores the camera
  thread predicts with the new recogniser and looks the label up in the old map, which
  does not hold it (label 1 here); with the three steps of the retraining between its
  reads it predicts with the old recogniser and looks up in the new map.
\<close>

theorem torn_pair_counterexample:
  "fst (train_recognizer id enrolling)
      = Inr (Trained [(50, 0), (10, 1)], [(0, ''aaron'', ''E000''), (1, ''alice'', ''E001'')])
   \<and> pair_read (interleave nearest id (10, 1762000000)
         [Retrainer, Retrainer, Pipeline, Pipeline, Retrainer] (both_pending enrolling))
      = Some (Trained [(50, 0), (10, 1)], [(0, ''alice'', ''E001'')])
   \<and> nearest [(50, 0), (10, 1)] 10 = Inr (1, 0)
   \<and> map_of [(0 :: int, ''alice'', ''E001'')] 1 = None
   \<and> pair_read (interleave nearest id (10, 1762000000)
         [Pipeline, Retrainer, Retrainer, Retrainer, Pipeline] (both_pending enrolling))
      = Some (Trained [(10, 0)], [(0, ''aaron'', ''E000''), (1, ''alice'', ''E001'')])"
  by code_simp

text \<open>
  C2, amended. Training never raises. Let the retraining thread take \<open>a\<close> of its steps
  (the training call, the store of the recogniser, the store of the label map) before
  the camera thread reads the recogniser, and \<open>b\<close> more before it reads the label map,
  with any steps after that: the camera thread has read the new recogniser exactly when
  \<open>a\<close> is at least 2 (the store of the recogniser precedes its read) and the new label
  map exactly when \<open>a + b\<close> is at least 3 (the store of the label map precedes its read).
  So it reads the new recogniser with the old label map when both reads fall between
  the two stores, the old recogniser with the new label map when it reads the
  recogniser before the store of the recogniser and the label map after the store of
  the label map, and in every other schedule either both as they were before the
  retraining or both from the training run.
\<close>

theorem pair_read_by_schedule:
  fixes s :: "'img app" and lbph resize face a b rest
  defines "trained \<equiv> projr (fst (train_recognizer resize s))"
      and "schedule \<equiv> replicate a Retrainer @ [Pipeline] @ replicate b Retrainer @ [Pipeline] @ rest"
  shows "fst (train_recognizer resize s) = Inr trained
       \<and> pair_read (interleave lbph resize face schedule (both_pending s))
           = Some (if 2 \<le> a then fst trained else recognizer s,
                   if 3 \<le> a + b then snd trained else label_map s)"
proof -
  let ?run = "fold (thread_step lbph resize face)"
  define c1 where "c1 = ?run (replicate a Retrainer) (both_pending s)"
  define c2 where "c2 = pipeline_step lbph face c1"
  define c3 where "c3 = ?run (replicate b Retrainer) c2"
  define c4 where "c4 = pipeline_step lbph face c3"
  have i1: "consistent_with resize s c1" and s1: "stage (retrainer c1) = min 3 a"
    and p1: "pipeline c1 = Predict_pending"
    using retrainer_steps [OF consistent_start, of resize s lbph face a]
    unfolding c1_def by (simp_all add: both_pending_def)
  have i2: "consistent_with resize s c2" and s2: "stage (retrainer c2) = min 3 a"
    using pipeline_step_consistent [OF i1, of lbph face] s1 unfolding c2_def by simp_all
  have p2: "\<exists>lc. pipeline c2 = Lookup_pending (if 2 \<le> a then fst trained else recognizer s) lc"
    using i1 s1 p1 unfolding c2_def trained_def
    by (auto simp: pipeline_step_def consistent_with_def)
  have i3: "consistent_with resize s c3" and s3: "stage (retrainer c3) = min 3 (min 3 a + b)"
    and p3: "pipeline c3 = pipeline c2"
    using retrainer_steps [OF i2, of lbph face b] s2 unfolding c3_def by simp_all
  have p4: "pipeline c4 = Face_done (if 2 \<le> a then fst trained else recognizer s)
                                    (if 3 \<le> a + b then snd trained else label_map s)"
  proof -
    obtain lc where "pipeline c3 = Lookup_pending (if 2 \<le> a then fst trained else recognizer s) lc"
      using p2 p3 by auto
    moreover have "label_map (shared c3) = (if 3 \<le> a + b then snd trained else label_map s)"
      using i3 s3 unfolding trained_def by (auto simp: consistent_with_def)
    ultimately show ?thesis
      unfolding c4_def by (simp add: pipeline_step_def)
  qed
  have "interleave lbph resize face schedule (both_pending s) = ?run rest c4"
    unfolding interleave_def schedule_def c4_def c3_def c2_def c1_def by simp
  then have "pipeline (interleave lbph resize face schedule (both_pending s))
               = Face_done (if 2 \<le> a then fst trained else recognizer s)
                           (if 3 \<le> a + b then snd trained else label_map s)"
    using done_stays [OF p4, of lbph resize face rest] by simp
  then show ?thesis
    unfolding trained_def by (simp add: pair_read_def train_is_Inr [symmetric])
qed

theorem pair_read_by_schedule_witness:
  "pair_read (interleave nearest id (10, 1762000000)
         [Retrainer, Retrainer, Retrainer, Pipeline, Pipeline] (both_pending enrolling))
      = Some (Trained [(50, 0), (10, 1)], [(0, ''aaron'', ''E000''), (1, ''alice'', ''E001'')])
   \<and> pair_read (interleave nearest id (10, 1762000000)
         [Retrainer, Pipeline, Pipeline, Retrainer, Retrainer] (both_pending enrolling))
      = Some (Trained [(10, 0)], [(0, ''alice'', ''E001'')])"
proof -
  have t: "fst (train_recognizer id enrolling)
      = Inr (Trained [(50, 0), (10, 1)], [(0, ''aaron'', ''E000''), (1, ''alice'', ''E001'')])"
    by code_simp
  have o: "recognizer enrolling = Trained [(10, 0)]" "label_map enrolling = [(0, ''alice'', ''E001'')]"
    by (simp_all add: enrolling_def desk_def blank_app_def)
  show ?thesis
    using pair_read_by_schedule [of id enrolling nearest "(10, 1762000000)" 3 0 "[]"]
      pair_read_by_schedule [of id enrolling nearest "(10, 1762000000)" 1 0 "[Retrainer, Retrainer]"]
    by (simp add: t o numeral_3_eq_3)
qed

end
